theory Spec2Isabelle
  imports Complex_Main
begin

section \<open>Numeric arrays\<close>

text \<open>
  The environment (\<^verbatim>\<open>env/creditScoring_v3.py\<close>) and the agent
  (\<^verbatim>\<open>model/principal_v5.py\<close>) compute on one-dimensional numpy arrays of
  \<^verbatim>\<open>float64\<close>. An array is a list of reals here: rounding, signed zeros, infinities
  and NaN are outside this model, and the one question that turns on them (whether the
  response at \<open>\<epsilon> = 0\<close> returns the same bits) is settled on a second model of the
  closed-form response, over \<open>f64\<close>. Exceptions of the source are values of \<open>error\<close>;
  a call that raises returns \<open>Inl\<close> and the state it leaves behind is not modelled.
\<close>

datatype error = IndexError | ValueError

text \<open>
  numpy resolves an index \<open>i\<close> into an axis of length \<open>n\<close>: \<open>0 \<le> i < n\<close> is the
  position itself, \<open>-n \<le> i < 0\<close> counts from the end, everything else raises
  \<^verbatim>\<open>IndexError\<close>.
\<close>

definition np_index :: "nat \<Rightarrow> int \<Rightarrow> error + nat" where
  "np_index n i =
     (if 0 \<le> i \<and> i < int n then Inr (nat i)
      else if - int n \<le> i \<and> i < 0 then Inr (nat (int n + i))
      else Inl IndexError)"

text \<open>\<^verbatim>\<open>a[idx]\<close> for a list or array \<open>idx\<close> of integers: a new array of the selected entries.\<close>

fun np_take :: "'a list \<Rightarrow> int list \<Rightarrow> error + 'a list" where
  "np_take xs [] = Inr []"
| "np_take xs (i # is) =
     (case np_index (length xs) i of
        Inl e \<Rightarrow> Inl e
      | Inr k \<Rightarrow> (case np_take xs is of Inl e \<Rightarrow> Inl e | Inr vs \<Rightarrow> Inr (xs ! k # vs)))"

text \<open>
  \<^verbatim>\<open>a[idx] = vs\<close> with \<open>vs\<close> of the shape of \<open>idx\<close>: the entries are stored in
  order, so that the last one wins at a repeated index.
\<close>

fun np_put :: "'a list \<Rightarrow> int list \<Rightarrow> 'a list \<Rightarrow> error + 'a list" where
  "np_put xs [] [] = Inr xs"
| "np_put xs (i # is) (v # vs) =
     (case np_index (length xs) i of
        Inl e \<Rightarrow> Inl e
      | Inr k \<Rightarrow> np_put (xs[k := v]) is vs)"
| "np_put xs _ _ = Inl ValueError"

section \<open>Strategic response\<close>

text \<open>
  The module-level constants of \<^verbatim>\<open>creditScoring_v3.py\<close> that the response consults.
  They are a parameter of the model, with the values of the source in \<open>default_config\<close>.
\<close>

record config =
  strategic_response :: bool
  response_method :: string
  epsilon :: real
  strat_features :: "int list"

definition default_config :: config where
  "default_config =
     \<lparr>strategic_response = True, response_method = ''Close'', epsilon = 1,
      strat_features = [0, 5, 7]\<rparr>"

text \<open>
  \<^verbatim>\<open>strategic_response_Close(real_feature, policy_weight, epsilon, strat_features)\<close>;
  the first argument is the global flag \<^verbatim>\<open>strategic_response\<close>. The statement
  \<^verbatim>\<open>modified[strat_features] += -epsilon * theta_strat\<close> reads
  \<^verbatim>\<open>modified[strat_features]\<close>, adds, and stores the sums back.
\<close>

definition strategic_response_Close ::
  "bool \<Rightarrow> real list \<Rightarrow> real list \<Rightarrow> real \<Rightarrow> int list option \<Rightarrow> error + real list" where
  "strategic_response_Close enabled real_feature policy_weight eps strat =
     (if \<not> enabled then Inr real_feature
      else
        let S = (case strat of
                   None \<Rightarrow> map int [0 ..< length policy_weight - 1]
                 | Some s \<Rightarrow> s);
            modified = real_feature;
            theta = butlast policy_weight
        in case np_take theta S of
             Inl e \<Rightarrow> Inl e
           | Inr theta_strat \<Rightarrow>
               (case np_take modified S of
                  Inl e \<Rightarrow> Inl e
                | Inr cur \<Rightarrow>
                    np_put modified S (map2 (\<lambda>c t. c + (- eps) * t) cur theta_strat)))"

text \<open>
  \<^verbatim>\<open>strategic_response_GA(real_feature, policy_weight)\<close>. Everything after the guard
  (the torch tensors, the Adam iterations with their clamp to \<open>[0, 1]\<close>, the optional
  plot, the write-back into a copy) is the parameter \<open>ga\<close>: the optimiser is library
  code and computes in \<^verbatim>\<open>float32\<close>. The call counter only selects the calls that
  are plotted and is left out.
\<close>

type_synonym ga_body = "real list \<Rightarrow> real list \<Rightarrow> error + real list"

definition strategic_response_GA ::
  "bool \<Rightarrow> ga_body \<Rightarrow> real list \<Rightarrow> real list \<Rightarrow> error + real list" where
  "strategic_response_GA enabled ga real_feature policy_weight =
     (if \<not> enabled then Inr real_feature else ga real_feature policy_weight)"









section \<open>Simulation environment\<close>

text \<open>
  The fields of \<^verbatim>\<open>creditScoring_v3\<close> that its methods read or write. The two splits
  are what \<^verbatim>\<open>load_train_data\<close> and \<^verbatim>\<open>load_test_data\<close> return; the cursor starts at
  0 and only grows, so it is a \<open>nat\<close>. The flag \<^verbatim>\<open>trigger_once\<close> guards one
  diagnostic \<^verbatim>\<open>print\<close> and is left out.
\<close>

record env =
  mode :: string
  maximum_episode_length :: int
  samplePointer :: nat
  train_x :: "real list list"
  train_y :: "int list"
  test_x :: "real list list"
  test_y :: "int list"
  cost_weight :: "real list"
  policy_weight :: "real list"

text \<open>\<^verbatim>\<open>__init__(policy_weight, maximum_episode_length)\<close>, the loaded data as arguments.\<close>

definition init ::
  "real list list \<Rightarrow> int list \<Rightarrow> real list list \<Rightarrow> int list \<Rightarrow> real list \<Rightarrow> int \<Rightarrow> env" where
  "init tr_x tr_y te_x te_y pw mel =
     \<lparr>mode = ''train'', maximum_episode_length = mel, samplePointer = 0,
      train_x = tr_x, train_y = tr_y, test_x = te_x, test_y = te_y,
      cost_weight = replicate 10 (1/2), policy_weight = pw\<rparr>"

text \<open>\<^verbatim>\<open>seq[k]\<close> at a cursor \<open>k \<ge> 0\<close>: \<^verbatim>\<open>IndexError\<close> past the end.\<close>

definition np_get :: "'a list \<Rightarrow> nat \<Rightarrow> error + 'a" where
  "np_get xs k = (if k < length xs then Inr (xs ! k) else Inl IndexError)"

text \<open>The active split, as the methods select it: \<^verbatim>\<open>'train'\<close>, or else the test data.\<close>

definition samples :: "env \<Rightarrow> real list list" where
  "samples st = (if mode st = ''train'' then train_x st else test_x st)"

definition labels :: "env \<Rightarrow> int list" where
  "labels st = (if mode st = ''train'' then train_y st else test_y st)"

text \<open>\<^verbatim>\<open>_get_obs\<close>\<close>

definition get_obs :: "config \<Rightarrow> ga_body \<Rightarrow> env \<Rightarrow> error + real list" where
  "get_obs cfg ga st =
     (case np_get (samples st) (samplePointer st) of
        Inl e \<Rightarrow> Inl e
      | Inr sample \<Rightarrow>
          if response_method cfg = ''GA'' then
            strategic_response_GA (strategic_response cfg) ga sample (policy_weight st)
          else if response_method cfg = ''Close'' then
            strategic_response_Close (strategic_response cfg) sample (policy_weight st)
              (epsilon cfg) (Some (strat_features cfg))
          else Inl ValueError)"

text \<open>\<^verbatim>\<open>_get_info\<close>: the dictionary with the keys \<^verbatim>\<open>true_label\<close> and \<^verbatim>\<open>next_obs\<close>.\<close>

record info =
  true_label :: int
  next_obs :: "real list option"

definition get_info :: "config \<Rightarrow> ga_body \<Rightarrow> env \<Rightarrow> error + info" where
  "get_info cfg ga st =
     (case np_get (labels st) (samplePointer st) of
        Inl e \<Rightarrow> Inl e
      | Inr target \<Rightarrow>
          let max_len = length (samples st);
              next_idx = samplePointer st + 1
          in if next_idx < max_len then
               let next_sample = samples st ! next_idx
               in if response_method cfg = ''GA'' then
                    (case strategic_response_GA (strategic_response cfg) ga next_sample
                            (policy_weight st) of
                       Inl e \<Rightarrow> Inl e
                     | Inr v \<Rightarrow> Inr \<lparr>true_label = target, next_obs = Some v\<rparr>)
                  else if response_method cfg = ''Close'' then
                    (case strategic_response_Close (strategic_response cfg) next_sample
                            (policy_weight st) (epsilon cfg) (Some (strat_features cfg)) of
                       Inl e \<Rightarrow> Inl e
                     | Inr v \<Rightarrow> Inr \<lparr>true_label = target, next_obs = Some v\<rparr>)
                  else Inr \<lparr>true_label = target, next_obs = None\<rparr>
             else Inr \<lparr>true_label = target, next_obs = None\<rparr>)"

text \<open>\<^verbatim>\<open>reset\<close>: the observation, the info and the environment after the call.\<close>

definition reset :: "config \<Rightarrow> ga_body \<Rightarrow> env \<Rightarrow> error + ((real list \<times> info) \<times> env)" where
  "reset cfg ga st =
     (let st1 = st\<lparr>samplePointer := 0\<rparr>
      in case get_obs cfg ga st1 of
           Inl e \<Rightarrow> Inl e
         | Inr observation \<Rightarrow>
             (case get_info cfg ga st1 of
                Inl e \<Rightarrow> Inl e
              | Inr i \<Rightarrow> Inr ((observation, i), st1)))"

text \<open>
  \<^verbatim>\<open>step(action, previous_policy_weight)\<close>: the returned tuple
  \<^verbatim>\<open>(next_obs, reward, terminated, truncated, info)\<close> and the environment after
  the call.
\<close>

record step_result =
  next_observation :: "real list option"
  reward :: int
  terminated :: bool
  truncated :: bool
  step_info :: info

definition step ::
  "config \<Rightarrow> ga_body \<Rightarrow> env \<Rightarrow> int \<Rightarrow> real list option \<Rightarrow> error + (step_result \<times> env)" where
  "step cfg ga st action previous_policy_weight =
     (case np_get (labels st) (samplePointer st) of
        Inl e \<Rightarrow> Inl e
      | Inr label \<Rightarrow>
          let rew = (if action = 0 \<and> label = 0 then 1
                     else if action = 0 \<and> label = 1 then - 1
                     else if action = 1 \<and> label = 0 then - 1
                     else 1);
              st1 = (case previous_policy_weight of
                       None \<Rightarrow> st
                     | Some w \<Rightarrow> st\<lparr>policy_weight := w\<rparr>);
              max_len = length (samples st1);
              next_idx = samplePointer st1 + 1;
              term = (next_idx \<ge> max_len);
              trunc = (int next_idx > maximum_episode_length st1)
          in if \<not> (term \<or> trunc) then
               let st2 = st1\<lparr>samplePointer := next_idx\<rparr>
               in case get_obs cfg ga st2 of
                    Inl e \<Rightarrow> Inl e
                  | Inr observation \<Rightarrow>
                      (case get_info cfg ga st2 of
                         Inl e \<Rightarrow> Inl e
                       | Inr i \<Rightarrow>
                           Inr (\<lparr>next_observation = Some observation, reward = rew,
                                 terminated = term, truncated = trunc, step_info = i\<rparr>, st2))
             else
               (case get_info cfg ga st1 of
                  Inl e \<Rightarrow> Inl e
                | Inr i \<Rightarrow>
                    Inr (\<lparr>next_observation = None, reward = rew,
                          terminated = term, truncated = trunc, step_info = i\<rparr>, st1)))"

text \<open>
  The caller of the scenario "reset, then step with the true label at the cursor":
  \<open>play n i st\<close> makes \<open>n\<close> calls of \<open>step\<close>, each with the label that the info
  of the previous call carries, and collects \<open>(reward, terminated, truncated)\<close> of
  every call.
\<close>

fun play :: "config \<Rightarrow> ga_body \<Rightarrow> nat \<Rightarrow> info \<Rightarrow> env \<Rightarrow> error + (int \<times> bool \<times> bool) list" where
  "play cfg ga 0 i st = Inr []"
| "play cfg ga (Suc n) i st =
     (case step cfg ga st (true_label i) None of
        Inl e \<Rightarrow> Inl e
      | Inr (r, st') \<Rightarrow>
          (case play cfg ga n (step_info r) st' of
             Inl e \<Rightarrow> Inl e
           | Inr rs \<Rightarrow> Inr ((reward r, terminated r, truncated r) # rs)))"

definition episode :: "config \<Rightarrow> ga_body \<Rightarrow> nat \<Rightarrow> env \<Rightarrow> error + (int \<times> bool \<times> bool) list" where
  "episode cfg ga n st =
     (case reset cfg ga st of
        Inl e \<Rightarrow> Inl e
      | Inr ((observation, i), st') \<Rightarrow> play cfg ga n i st')"

text \<open>
  A body for the iterative response that raises at once. The closed examples below
  use it; none of them selects the iterative response.
\<close>

definition no_ga :: ga_body where
  "no_ga real_feature w = Inl ValueError"

section \<open>Online principal agent\<close>

text \<open>
  A transition is the tuple \<^verbatim>\<open>(obs, action, reward, terminated, next_obs, true_label)\<close>
  that \<^verbatim>\<open>update\<close> stores.
\<close>

type_synonym transition = "real list \<times> int \<times> real \<times> bool \<times> real list option \<times> int"

text \<open>
  The fields of \<^verbatim>\<open>Principal_v5\<close> that \<^verbatim>\<open>update\<close> and \<^verbatim>\<open>batch_update\<close> read or
  write. A record of \<^verbatim>\<open>training_acc_detail\<close> is the tuple of the dictionary's values
  (predicted_prob, predicted_label, true_label, expected_accuracy, reward).
\<close>

record agent =
  discount_factor :: real
  lr_a :: real
  lr_c :: real
  previous_policy_weight :: "real list"
  q_weights :: "real list"
  buffer_size :: nat
  buffer :: "transition list"
  batch_update_count :: nat
  training_error :: "real list"
  training_expected_acc_list :: "real list"
  training_acc_detail :: "(real \<times> int \<times> int \<times> real \<times> real) list"
  training_rewards :: "real list"
  training_policy_weights :: "real list list"
  training_single_policy_weight_update :: "real list list"
  training_batch_acc :: "real list"

definition clipVal_td :: real where "clipVal_td = 10"
definition clipVal_grad_log_pi :: real where "clipVal_grad_log_pi = 10"
definition clipVal_policyWeight :: real where "clipVal_policyWeight = 10"

text \<open>
  \<^verbatim>\<open>__init__\<close>: the initial policy weights are drawn by \<^verbatim>\<open>np.random.normal\<close> and
  are an argument here; the buffer is \<^verbatim>\<open>deque(maxlen=buffer_size)\<close>, empty.
\<close>

definition Principal_v5 :: "nat \<Rightarrow> real \<Rightarrow> real \<Rightarrow> nat \<Rightarrow> real \<Rightarrow> real list \<Rightarrow> agent" where
  "Principal_v5 dimension learning_rate_critic learning_rate_actor capacity discount w0 =
     \<lparr>discount_factor = discount, lr_a = learning_rate_actor, lr_c = learning_rate_critic,
      previous_policy_weight = w0, q_weights = replicate (dimension + 1 + 1) (1/100),
      buffer_size = capacity, buffer = [], batch_update_count = 0,
      training_error = [], training_expected_acc_list = [], training_acc_detail = [],
      training_rewards = [], training_policy_weights = [],
      training_single_policy_weight_update = [], training_batch_acc = []\<rparr>"

text \<open>
  \<^verbatim>\<open>deque.append\<close> on a deque with \<^verbatim>\<open>maxlen\<close>: a full deque drops its oldest
  entry, a deque of capacity 0 stays empty.
\<close>

definition deque_append :: "nat \<Rightarrow> 'a list \<Rightarrow> 'a \<Rightarrow> 'a list" where
  "deque_append maxlen d x = drop (length d + 1 - maxlen) (d @ [x])"

text \<open>\<^verbatim>\<open>np.dot\<close> of two one-dimensional arrays: \<^verbatim>\<open>ValueError\<close> when the lengths differ.\<close>

definition np_dot :: "real list \<Rightarrow> real list \<Rightarrow> error + real" where
  "np_dot a b =
     (if length a = length b then Inr (sum_list (map2 (*) a b)) else Inl ValueError)"

definition np_clip :: "real \<Rightarrow> real \<Rightarrow> real \<Rightarrow> real" where
  "np_clip v lo hi = min (max v lo) hi"

text \<open>\<^verbatim>\<open>np.mean\<close>; of an empty list numpy returns NaN with a warning, the model 0.\<close>

definition np_mean :: "real list \<Rightarrow> real" where
  "np_mean vs = sum_list vs / real (length vs)"

text \<open>
  The body of the loop of \<^verbatim>\<open>batch_update\<close> for one transition: the agent after it
  and the value appended to \<^verbatim>\<open>accs\<close>.
\<close>

definition batch_body :: "agent \<Rightarrow> transition \<Rightarrow> error + (agent \<times> real)" where
  "batch_body ag t =
     (case t of (observation, action, rew, term, nxt, label) \<Rightarrow>
        let q_input = observation @ [real_of_int action]
        in case np_dot (q_weights ag) q_input of
             Inl e \<Rightarrow> Inl e
           | Inr q_value \<Rightarrow>
               (case (case (term, nxt) of
                        (False, Some n) \<Rightarrow>
                          (case np_dot (q_weights ag) (n @ [0]) of
                             Inl e \<Rightarrow> Inl e
                           | Inr q_next_0 \<Rightarrow>
                               (case np_dot (q_weights ag) (n @ [1]) of
                                  Inl e \<Rightarrow> Inl e
                                | Inr q_next_1 \<Rightarrow> Inr (max q_next_0 q_next_1)))
                      | _ \<Rightarrow> Inr 0) of
                  Inl e \<Rightarrow> Inl e
                | Inr max_q_next \<Rightarrow>
                    let td_target = rew + discount_factor ag * max_q_next;
                        td_error = np_clip (td_target - q_value) (- clipVal_td) clipVal_td;
                        ag1 = ag\<lparr>q_weights :=
                                map2 (+) (q_weights ag)
                                  (map (\<lambda>v. lr_c ag * td_error * v) q_input)\<rparr>
                    in case np_dot (previous_policy_weight ag1) observation of
                         Inl e \<Rightarrow> Inl e
                       | Inr logits \<Rightarrow>
                           let prob = 1 / (1 + exp (- logits));
                               grad_log_pi =
                                 map (\<lambda>v. np_clip ((real_of_int action - prob) * v)
                                            (- clipVal_grad_log_pi) clipVal_grad_log_pi)
                                   observation;
                               weight_update =
                                 map (\<lambda>g. np_clip
                                            (lr_a ag1 * td_error * g / real (buffer_size ag1))
                                            (- clipVal_policyWeight) clipVal_policyWeight)
                                   grad_log_pi;
                               ag2 = ag1\<lparr>previous_policy_weight :=
                                           map2 (+) (previous_policy_weight ag1) weight_update,
                                         training_single_policy_weight_update :=
                                           training_single_policy_weight_update ag1
                                             @ [weight_update]\<rparr>;
                               correct_prob = (if label = 1 then prob else 1 - prob)
                           in Inr (ag2, correct_prob)))"

fun batch_loop :: "agent \<Rightarrow> transition list \<Rightarrow> real list \<Rightarrow> error + (agent \<times> real list)" where
  "batch_loop ag [] accs = Inr (ag, accs)"
| "batch_loop ag (t # batch) accs =
     (case batch_body ag t of
        Inl e \<Rightarrow> Inl e
      | Inr (ag', correct_prob) \<Rightarrow> batch_loop ag' batch (accs @ [correct_prob]))"

text \<open>
  \<^verbatim>\<open>batch_update\<close>. The permutation that \<^verbatim>\<open>np.random.shuffle\<close> applies to the
  batch is the parameter \<open>shuffle\<close>.
\<close>

definition batch_update :: "(transition list \<Rightarrow> transition list) \<Rightarrow> agent \<Rightarrow> error + agent" where
  "batch_update shuffle ag =
     (if length (buffer ag) < buffer_size ag then Inr ag
      else
        let ag1 = ag\<lparr>batch_update_count := batch_update_count ag + 1\<rparr>;
            batch = shuffle (buffer ag1)
        in case batch_loop ag1 batch [] of
             Inl e \<Rightarrow> Inl e
           | Inr (ag2, accs) \<Rightarrow>
               Inr (ag2\<lparr>buffer := [],
                        training_batch_acc := training_batch_acc ag2 @ [np_mean accs]\<rparr>))"

text \<open>\<^verbatim>\<open>update(obs, action, reward, terminated, info, prob)\<close>, the spec's \<open>observe\<close>.\<close>

definition update ::
  "(transition list \<Rightarrow> transition list) \<Rightarrow> agent \<Rightarrow>
   real list \<Rightarrow> int \<Rightarrow> real \<Rightarrow> bool \<Rightarrow> info \<Rightarrow> real \<Rightarrow> error + agent" where
  "update shuffle ag observation action rew term i prob =
     (let label = true_label i;
          nxt = next_obs i;
          sample = (observation, action, rew, term, nxt, label);
          ag1 = ag\<lparr>buffer := deque_append (buffer_size ag) (buffer ag) sample\<rparr>
      in case (if length (buffer ag1) \<ge> buffer_size ag1 then batch_update shuffle ag1
               else Inr ag1) of
           Inl e \<Rightarrow> Inl e
         | Inr ag2 \<Rightarrow>
             let pred = action;
                 correct_prob = (if label = 1 then prob else 1 - prob)
             in Inr (ag2\<lparr>
                  training_expected_acc_list := training_expected_acc_list ag2 @ [correct_prob],
                  training_error := training_error ag2 @ [\<bar>prob - real_of_int label\<bar>],
                  training_rewards := training_rewards ag2 @ [rew],
                  training_policy_weights :=
                    training_policy_weights ag2 @ [previous_policy_weight ag2],
                  training_acc_detail :=
                    training_acc_detail ag2 @ [(prob, pred, label, correct_prob, rew)]\<rparr>))"

text \<open>
  A sequence of calls of \<^verbatim>\<open>update\<close>, each with its arguments
  \<open>(obs, action, reward, terminated, info, prob)\<close>.
\<close>

type_synonym observation = "real list \<times> int \<times> real \<times> bool \<times> info \<times> real"

fun updates ::
  "(transition list \<Rightarrow> transition list) \<Rightarrow> agent \<Rightarrow> observation list \<Rightarrow> error + agent" where
  "updates shuffle ag [] = Inr ag"
| "updates shuffle ag ((observation, action, rew, term, i, prob) # calls) =
     (case update shuffle ag observation action rew term i prob of
        Inl e \<Rightarrow> Inl e
      | Inr ag' \<Rightarrow> updates shuffle ag' calls)"

text \<open>
  The update rule in the words of the specification (its section 4.3, steps 1 to 5),
  to be compared with \<open>batch_body\<close>: \<open>Q(obs, a)\<close> is the dot product of the critic
  weights with \<open>concat(obs, a)\<close>, the TD target is \<open>r + \<gamma> * max (Q(next, 0)) (Q(next, 1))\<close>
  when the transition is not terminated and has a next observation and \<open>r + \<gamma> * 0\<close>
  otherwise, the TD error is the target minus \<open>Q(obs, action)\<close> clipped to
  \<open>[-10, 10]\<close>, and \<open>p\<close> is the sigmoid of the dot product of the policy weights with
  the observation.
\<close>

definition Q_value :: "real list \<Rightarrow> real list \<Rightarrow> real \<Rightarrow> real" where
  "Q_value W ob b = (\<Sum>k<length W. W ! k * (ob @ [b]) ! k)"

definition clip10 :: "real \<Rightarrow> real" where
  "clip10 v = (if v < - 10 then - 10 else if 10 < v then 10 else v)"

definition sigmoid :: "real \<Rightarrow> real" where
  "sigmoid z = 1 / (1 + exp (- z))"

definition td_target_spec :: "agent \<Rightarrow> transition \<Rightarrow> real" where
  "td_target_spec ag t =
     (case t of (ob, a, r, tm, nxt, lab) \<Rightarrow>
        (case nxt of
           Some n \<Rightarrow>
             if \<not> tm then r + discount_factor ag *
                              max (Q_value (q_weights ag) n 0) (Q_value (q_weights ag) n 1)
             else r + discount_factor ag * 0
         | None \<Rightarrow> r + discount_factor ag * 0))"

definition td_error_spec :: "agent \<Rightarrow> transition \<Rightarrow> real" where
  "td_error_spec ag t =
     (case t of (ob, a, r, tm, nxt, lab) \<Rightarrow>
        clip10 (td_target_spec ag t - Q_value (q_weights ag) ob (real_of_int a)))"

definition policy_prob :: "agent \<Rightarrow> real list \<Rightarrow> real" where
  "policy_prob ag ob = sigmoid (\<Sum>k<length ob. previous_policy_weight ag ! k * ob ! k)"

text \<open>
  The two weight vectors after the spec's steps 3 and 5 for one transition, coordinate
  by coordinate, and the agent with both replaced.
\<close>

definition rule_q :: "agent \<Rightarrow> transition \<Rightarrow> real list" where
  "rule_q ag t =
     (case t of (ob, a, r, tm, nxt, lab) \<Rightarrow>
        map (\<lambda>k. q_weights ag ! k + lr_c ag * td_error_spec ag t * (ob @ [real_of_int a]) ! k)
          [0 ..< length (q_weights ag)])"

definition rule_theta :: "agent \<Rightarrow> transition \<Rightarrow> real list" where
  "rule_theta ag t =
     (case t of (ob, a, r, tm, nxt, lab) \<Rightarrow>
        map (\<lambda>k. previous_policy_weight ag ! k +
                 clip10 (lr_a ag * td_error_spec ag t *
                           clip10 ((real_of_int a - policy_prob ag ob) * ob ! k)
                         / real (buffer_size ag)))
          [0 ..< length (previous_policy_weight ag)])"

definition rule_step :: "agent \<Rightarrow> transition \<Rightarrow> agent" where
  "rule_step ag t = ag\<lparr>q_weights := rule_q ag t, previous_policy_weight := rule_theta ag t\<rparr>"

text \<open>Two agents that agree on everything the update rule reads.\<close>

definition learn_eq :: "agent \<Rightarrow> agent \<Rightarrow> bool" where
  "learn_eq ag bg \<longleftrightarrow>
     discount_factor ag = discount_factor bg \<and> lr_a ag = lr_a bg \<and> lr_c ag = lr_c bg \<and>
     previous_policy_weight ag = previous_policy_weight bg \<and>
     q_weights ag = q_weights bg \<and> buffer_size ag = buffer_size bg"

text \<open>
  Shapes under which no dot product of \<open>batch_body\<close> raises: policy weights of length
  \<open>n\<close>, critic weights of length \<open>n + 1\<close>, observations of length \<open>n\<close>.
\<close>

definition shapes_ok :: "nat \<Rightarrow> agent \<Rightarrow> bool" where
  "shapes_ok n ag \<longleftrightarrow>
     length (previous_policy_weight ag) = n \<and> length (q_weights ag) = n + 1"

definition transition_ok :: "nat \<Rightarrow> transition \<Rightarrow> bool" where
  "transition_ok n t =
     (case t of (ob, a, r, tm, nxt, lab) \<Rightarrow>
        length ob = n \<and> (case nxt of None \<Rightarrow> True | Some x \<Rightarrow> length x = n))"

section \<open>Properties of the strategic response\<close>

lemma np_index_nonneg:
  "0 \<le> i \<Longrightarrow> i < int n \<Longrightarrow> np_index n i = Inr (nat i)"
  by (simp add: np_index_def)

lemma np_take_length:
  "np_take xs S = Inr vs \<Longrightarrow> length vs = length S"
  by (induction S arbitrary: vs) (auto split: sum.splits)

lemma np_take_nonneg:
  "\<forall>i\<in>set S. 0 \<le> i \<and> i < int (length xs) \<Longrightarrow>
   np_take xs S = Inr (map (\<lambda>i. xs ! nat i) S)"
  by (induction S) (simp_all add: np_index_nonneg)

lemma np_put_nonneg:
  "\<forall>i\<in>set S. 0 \<le> i \<and> i < int (length xs) \<Longrightarrow>
   \<exists>ys. np_put xs S (map g S) = Inr ys \<and> length ys = length xs \<and>
        (\<forall>j<length xs. ys ! j = (if int j \<in> set S then g (int j) else xs ! j))"
proof (induction S arbitrary: xs)
  case Nil
  then show ?case by simp
next
  case (Cons i S)
  let ?xs = "xs[nat i := g i]"
  from Cons.prems have i: "0 \<le> i" "i < int (length xs)" by simp_all
  from Cons.prems have "\<forall>k\<in>set S. 0 \<le> k \<and> k < int (length ?xs)" by simp
  from Cons.IH [OF this] obtain ys where
    ys: "np_put ?xs S (map g S) = Inr ys" "length ys = length ?xs"
        "\<forall>j<length ?xs. ys ! j = (if int j \<in> set S then g (int j) else ?xs ! j)"
    by blast
  have "np_put xs (i # S) (map g (i # S)) = Inr ys"
    using i ys(1) by (simp add: np_index_nonneg)
  moreover have "length ys = length xs"
    using ys(2) by simp
  moreover have "\<forall>j<length xs. ys ! j = (if int j \<in> set (i # S) then g (int j) else xs ! j)"
  proof (intro allI impI)
    fix j assume j: "j < length xs"
    show "ys ! j = (if int j \<in> set (i # S) then g (int j) else xs ! j)"
    proof (cases "int j \<in> set S")
      case True
      then show ?thesis using ys(3) j by simp
    next
      case False
      show ?thesis
      proof (cases "int j = i")
        case True
        then have "nat i = j" by auto
        then show ?thesis using ys(3) j False True by simp
      next
        case ne: False
        then have "nat i \<noteq> j" using i by auto
        then show ?thesis using ys(3) j False ne by simp
      qed
    qed
  qed
  ultimately show ?case by blast
qed

lemma np_put_back:
  "np_take xs S = Inr vs \<Longrightarrow> np_put xs S vs = Inr xs"
proof (induction S arbitrary: vs)
  case Nil
  then show ?case by simp
next
  case (Cons i S)
  then show ?case
    by (auto split: sum.splits)
qed

text \<open>
  C1. With manipulation enabled, a weight vector as long as the feature vector and a
  list \<open>S\<close> of non-bias feature indices (\<open>0 \<le> i < D\<close> for vectors of length \<open>D + 1\<close>),
  the closed-form response returns a vector \<open>x'\<close> of the same length with
  \<open>x'\<^sub>j = x\<^sub>j - \<epsilon> * \<theta>\<^sub>j\<close> at every \<open>j\<close> in \<open>S\<close> and \<open>x'\<^sub>j = x\<^sub>j\<close> at every other
  \<open>j\<close>; the trailing bias coordinate is among the latter.
\<close>

theorem strategic_response_Close_closed_form:
  assumes "length x = length \<theta>"
    and "\<forall>i\<in>set S. 0 \<le> i \<and> i < int (length \<theta>) - 1"
  shows "\<exists>x'. strategic_response_Close True x \<theta> \<epsilon> (Some S) = Inr x' \<and>
           length x' = length x \<and>
           (\<forall>j<length x. x' ! j = (if int j \<in> set S then x ! j - \<epsilon> * \<theta> ! j else x ! j)) \<and>
           (x \<noteq> [] \<longrightarrow> last x' = last x)"
proof -
  let ?g = "\<lambda>i. x ! nat i + (- \<epsilon>) * butlast \<theta> ! nat i"
  have len: "length (butlast \<theta>) = length \<theta> - 1" by simp
  have inT: "\<forall>i\<in>set S. 0 \<le> i \<and> i < int (length (butlast \<theta>))"
    using assms(2) by (auto simp: len)
  have inX: "\<forall>i\<in>set S. 0 \<le> i \<and> i < int (length x)"
    using assms by auto
  have t: "np_take (butlast \<theta>) S = Inr (map (\<lambda>i. butlast \<theta> ! nat i) S)"
    by (rule np_take_nonneg [OF inT])
  have c: "np_take x S = Inr (map (\<lambda>i. x ! nat i) S)"
    by (rule np_take_nonneg [OF inX])
  have vals: "map2 (\<lambda>c t. c + (- \<epsilon>) * t) (map (\<lambda>i. x ! nat i) S)
                (map (\<lambda>i. butlast \<theta> ! nat i) S) = map ?g S"
    by (induction S) simp_all
  from np_put_nonneg [OF inX, of ?g] obtain ys where
    ys: "np_put x S (map ?g S) = Inr ys" "length ys = length x"
        "\<forall>j<length x. ys ! j = (if int j \<in> set S then ?g (int j) else x ! j)"
    by blast
  have res: "strategic_response_Close True x \<theta> \<epsilon> (Some S) = Inr ys"
    using vals ys(1) by (simp add: strategic_response_Close_def t c)
  have pt: "\<forall>j<length x. ys ! j = (if int j \<in> set S then x ! j - \<epsilon> * \<theta> ! j else x ! j)"
  proof (intro allI impI)
    fix j assume j: "j < length x"
    show "ys ! j = (if int j \<in> set S then x ! j - \<epsilon> * \<theta> ! j else x ! j)"
    proof (cases "int j \<in> set S")
      case True
      with assms(2) have "j < length \<theta> - 1" by auto
      then have "butlast \<theta> ! j = \<theta> ! j" by (simp add: nth_butlast)
      with True ys(3) j show ?thesis by simp
    next
      case False
      with ys(3) j show ?thesis by simp
    qed
  qed
  have bias: "x \<noteq> [] \<longrightarrow> last ys = last x"
  proof
    assume ne: "x \<noteq> []"
    then have ne': "ys \<noteq> []" using ys(2) by auto
    have "int (length x - 1) \<notin> set S"
      using assms by auto
    moreover have "length x - 1 < length x" using ne by simp
    ultimately have "ys ! (length x - 1) = x ! (length x - 1)"
      using pt by simp
    then show "last ys = last x"
      using ne ne' ys(2) by (simp add: last_conv_nth)
  qed
  show ?thesis using res ys(2) pt bias by blast
qed

theorem strategic_response_Close_closed_form_witness:
  "strategic_response_Close True [1, 2, 3, 1] [4, 5, 6, 7] 2 (Some [0, 2]) = Inr [-7, 2, -9, 1]"
proof -
  have "length [1, 2, 3, 1::real] = length [4, 5, 6, 7::real]" by simp
  moreover have "\<forall>i\<in>set [0, 2::int]. 0 \<le> i \<and> i < int (length [4, 5, 6, 7::real]) - 1" by simp
  ultimately obtain x' where
    "strategic_response_Close True [1, 2, 3, 1] [4, 5, 6, 7] 2 (Some [0, 2]) = Inr x'"
    using strategic_response_Close_closed_form [of "[1, 2, 3, 1]" "[4, 5, 6, 7]" "[0, 2]" 2]
    by blast
  then show ?thesis
    by (simp add: strategic_response_Close_def np_index_def)
qed

lemma np_take_valid:
  "\<forall>i\<in>set S. - int (length xs) \<le> i \<and> i < int (length xs) \<Longrightarrow> \<exists>vs. np_take xs S = Inr vs"
  by (induction S) (auto simp: np_index_def)







section \<open>Properties of the environment\<close>

lemma np_get_Inr: "np_get xs k = Inr v \<longleftrightarrow> k < length xs \<and> v = xs ! k"
  by (auto simp: np_get_def)

lemma step_set_weights:
  "samples (case w of None \<Rightarrow> st | Some v \<Rightarrow> st\<lparr>policy_weight := v\<rparr>) = samples st"
  "labels (case w of None \<Rightarrow> st | Some v \<Rightarrow> st\<lparr>policy_weight := v\<rparr>) = labels st"
  "samplePointer (case w of None \<Rightarrow> st | Some v \<Rightarrow> st\<lparr>policy_weight := v\<rparr>) = samplePointer st"
  "maximum_episode_length (case w of None \<Rightarrow> st | Some v \<Rightarrow> st\<lparr>policy_weight := v\<rparr>)
     = maximum_episode_length st"
  by (simp_all add: samples_def labels_def split: option.splits)

lemma step_result:
  assumes "step cfg ga st a w = Inr (r, st')"
  shows "samplePointer st < length (labels st) \<and>
     reward r = (if a = 0 \<and> labels st ! samplePointer st = 0 then 1
                 else if a = 0 \<and> labels st ! samplePointer st = 1 then - 1
                 else if a = 1 \<and> labels st ! samplePointer st = 0 then - 1
                 else 1) \<and>
     terminated r = (length (samples st) \<le> samplePointer st + 1) \<and>
     truncated r = (maximum_episode_length st < int (samplePointer st) + 1)"
proof -
  from assms obtain l where l: "np_get (labels st) (samplePointer st) = Inr l"
    by (cases "np_get (labels st) (samplePointer st)") (simp_all add: step_def)
  then have sp: "samplePointer st < length (labels st)" and l': "labels st ! samplePointer st = l"
    by (simp_all add: np_get_Inr)
  define rw :: int where "rw = (if a = 0 \<and> l = 0 then 1
                     else if a = 0 \<and> l = 1 then - 1
                     else if a = 1 \<and> l = 0 then - 1
                     else 1)"
  note s = assms [unfolded step_def Let_def l sum.case step_set_weights, folded rw_def]
  have "reward r = rw \<and>
     terminated r = (length (samples st) \<le> samplePointer st + 1) \<and>
     truncated r = (maximum_episode_length st < int (samplePointer st) + 1)"
    using s by (auto split: if_splits sum.splits)
  then show ?thesis
    using sp by (simp add: l' rw_def)
qed

lemma reward_of_binary:
  fixes a l :: int
  assumes "a = 0 \<or> a = 1" and "l = 0 \<or> l = 1"
  shows "(if a = 0 \<and> l = 0 then 1
          else if a = 0 \<and> l = 1 then - 1
          else if a = 1 \<and> l = 0 then - 1
          else (1::int)) = (if a = l then 1 else - 1)"
proof -
  consider "a = 0" "l = 0" | "a = 0" "l = 1" | "a = 1" "l = 0" | "a = 1" "l = 1"
    using assms by blast
  then show ?thesis
    by cases simp_all
qed

lemma reward_of_other:
  fixes a l :: int
  assumes "a \<noteq> 0" and "a \<noteq> 1"
  shows "(if a = 0 \<and> l = 0 then 1
          else if a = 0 \<and> l = 1 then - 1
          else if a = 1 \<and> l = 0 then - 1
          else (1::int)) = 1"
  using assms by simp

text \<open>
  C3. Whenever \<open>step\<close> returns, with an action 0 or 1 and binary labels in the
  active split, the cursor it was called at lies inside the labels and the reward is
  \<open>+1\<close> if the action equals the label at that cursor (the cursor of the state before
  the call) and \<open>-1\<close> otherwise.
\<close>

theorem step_reward_matches_label:
  assumes "step cfg ga st a w = Inr (r, st')"
    and "a = 0 \<or> a = 1"
    and "\<forall>l\<in>set (labels st). l = 0 \<or> l = 1"
  shows "samplePointer st < length (labels st) \<and>
         reward r = (if a = labels st ! samplePointer st then 1 else - 1)"
proof -
  note res = step_result [OF assms(1)]
  from res have sp: "samplePointer st < length (labels st)" by (rule conjunct1)
  from res have rw: "reward r = (if a = 0 \<and> labels st ! samplePointer st = 0 then 1
                 else if a = 0 \<and> labels st ! samplePointer st = 1 then - 1
                 else if a = 1 \<and> labels st ! samplePointer st = 0 then - 1
                 else 1)" by (rule conjunct1 [OF conjunct2])
  from sp have "labels st ! samplePointer st \<in> set (labels st)" by (rule nth_mem)
  with assms(3) have "labels st ! samplePointer st = 0 \<or> labels st ! samplePointer st = 1"
    by (rule bspec)
  from reward_of_binary [OF assms(2) this] rw
  have "reward r = (if a = labels st ! samplePointer st then 1 else - 1)"
    by (rule subst)
  with sp show ?thesis by (rule conjI)
qed

theorem step_reward_matches_label_witness:
  "step \<lparr>strategic_response = True, response_method = ''Close'', epsilon = 1,
         strat_features = [0]\<rparr> no_ga
     (init [[2, 1], [3, 1]] [0, 1] [] [] [1, 1] 10) 0 None
   = Inr (\<lparr>next_observation = Some [2, 1], reward = 1, terminated = False,
           truncated = False, step_info = \<lparr>true_label = 1, next_obs = None\<rparr>\<rparr>,
          (init [[2, 1], [3, 1]] [0, 1] [] [] [1, 1] 10)\<lparr>samplePointer := 1\<rparr>)
   \<and> labels (init [[2, 1], [3, 1]] [0, 1] [] [] [1, 1] 10)
       ! samplePointer (init [[2, 1], [3, 1]] [0, 1] [] [] [1, 1] 10) = 0"
proof -
  let ?E = "init [[2, 1], [3, 1]] [0, 1] [] [] [1, 1] 10"
  let ?C = "\<lparr>strategic_response = True, response_method = ''Close'', epsilon = 1,
         strat_features = [0]\<rparr>"
  obtain r st' where s: "step ?C no_ga ?E 0 None = Inr (r, st')"
    by (simp add: step_def get_obs_def get_info_def np_get_def labels_def samples_def init_def
          strategic_response_Close_def np_index_def)
  have l: "\<forall>l\<in>set (labels ?E). l = 0 \<or> l = 1"
    by (simp add: labels_def init_def)
  have z: "labels ?E ! samplePointer ?E = 0"
    by (simp add: labels_def init_def)
  have "reward r = (if 0 = labels ?E ! samplePointer ?E then 1 else - 1)"
    by (rule conjunct2 [OF step_reward_matches_label [OF s disjI1 [OF refl] l]])
  then have r: "reward r = 1"
    unfolding z by simp
  have e: "step ?C no_ga ?E 0 None
      = Inr (\<lparr>next_observation = Some [2, 1], reward = reward r, terminated = False,
           truncated = False, step_info = \<lparr>true_label = 1, next_obs = None\<rparr>\<rparr>,
          ?E\<lparr>samplePointer := 1\<rparr>)"
    unfolding r
    by (simp add: step_def get_obs_def get_info_def np_get_def labels_def samples_def init_def
          strategic_response_Close_def np_index_def)
  show ?thesis
    using e z unfolding r by (rule conjI)
qed

text \<open>
  C10. Whenever \<open>step\<close> returns for an action that is neither 0 nor 1, the reward
  is \<open>+1\<close>, whatever the label at the cursor is.
\<close>

theorem step_unrecognized_action:
  assumes "step cfg ga st a w = Inr (r, st')" and "a \<noteq> 0" and "a \<noteq> 1"
  shows "reward r = 1"
proof -
  from step_result [OF assms(1)]
  have "reward r = (if a = 0 \<and> labels st ! samplePointer st = 0 then 1
                 else if a = 0 \<and> labels st ! samplePointer st = 1 then - 1
                 else if a = 1 \<and> labels st ! samplePointer st = 0 then - 1
                 else 1)" by (rule conjunct1 [OF conjunct2])
  also have "\<dots> = 1" using assms(2,3) by (rule reward_of_other)
  finally show ?thesis .
qed

theorem step_unrecognized_action_witness:
  "step \<lparr>strategic_response = True, response_method = ''Close'', epsilon = 1,
         strat_features = [0]\<rparr> no_ga
     (init [[2, 1], [3, 1]] [1, 0] [] [] [1, 1] 10) 2 None
   = Inr (\<lparr>next_observation = Some [2, 1], reward = 1, terminated = False,
           truncated = False, step_info = \<lparr>true_label = 0, next_obs = None\<rparr>\<rparr>,
          (init [[2, 1], [3, 1]] [1, 0] [] [] [1, 1] 10)\<lparr>samplePointer := 1\<rparr>)"
proof -
  let ?E = "init [[2, 1], [3, 1]] [1, 0] [] [] [1, 1] 10"
  let ?C = "\<lparr>strategic_response = True, response_method = ''Close'', epsilon = 1,
         strat_features = [0]\<rparr>"
  obtain r st' where s: "step ?C no_ga ?E 2 None = Inr (r, st')"
    by (simp add: step_def get_obs_def get_info_def np_get_def labels_def samples_def init_def
          strategic_response_Close_def np_index_def)
  have r: "reward r = 1"
    using step_unrecognized_action [OF s] by simp
  have e1: "step ?C no_ga ?E 2 None
      = Inr (\<lparr>next_observation = Some [2, 1], reward = reward r, terminated = False,
           truncated = False, step_info = \<lparr>true_label = 0, next_obs = None\<rparr>\<rparr>,
          ?E\<lparr>samplePointer := 1\<rparr>)"
    unfolding r
    by (simp add: step_def get_obs_def get_info_def np_get_def labels_def samples_def init_def
          strategic_response_Close_def np_index_def)
  show ?thesis
    using e1 unfolding r .
qed

text \<open>Four calls of \<open>step\<close>, one for each pair of flags.\<close>

lemma ex_ff:
  "step \<lparr>strategic_response = True, response_method = ''Close'', epsilon = 1,
         strat_features = [0]\<rparr> no_ga
     (init [[2, 1], [3, 1]] [0, 1] [] [] [1, 1] 10) 0 None
   = Inr (\<lparr>next_observation = Some [2, 1], reward = 1, terminated = False,
           truncated = False, step_info = \<lparr>true_label = 1, next_obs = None\<rparr>\<rparr>,
          (init [[2, 1], [3, 1]] [0, 1] [] [] [1, 1] 10)\<lparr>samplePointer := 1\<rparr>)"
  by (simp add: step_def get_obs_def get_info_def np_get_def labels_def samples_def init_def
        strategic_response_Close_def np_index_def)

lemma ex_tf:
  "step \<lparr>strategic_response = True, response_method = ''Close'', epsilon = 1,
         strat_features = [0]\<rparr> no_ga
     (init [[2, 1]] [0] [] [] [1, 1] 10) 0 None
   = Inr (\<lparr>next_observation = None, reward = 1, terminated = True,
           truncated = False, step_info = \<lparr>true_label = 0, next_obs = None\<rparr>\<rparr>,
          init [[2, 1]] [0] [] [] [1, 1] 10)"
  by (simp add: step_def get_obs_def get_info_def np_get_def labels_def samples_def init_def
        strategic_response_Close_def np_index_def)

lemma ex_ft:
  "step \<lparr>strategic_response = True, response_method = ''Close'', epsilon = 1,
         strat_features = [0]\<rparr> no_ga
     (init [[2, 1], [3, 1]] [0, 1] [] [] [1, 1] 0) 0 None
   = Inr (\<lparr>next_observation = None, reward = 1, terminated = False,
           truncated = True, step_info = \<lparr>true_label = 0, next_obs = Some [2, 1]\<rparr>\<rparr>,
          init [[2, 1], [3, 1]] [0, 1] [] [] [1, 1] 0)"
  by (simp add: step_def get_obs_def get_info_def np_get_def labels_def samples_def init_def
        strategic_response_Close_def np_index_def)

lemma ex_tt:
  "step \<lparr>strategic_response = True, response_method = ''Close'', epsilon = 1,
         strat_features = [0]\<rparr> no_ga
     (init [[2, 1]] [0] [] [] [1, 1] 0) 0 None
   = Inr (\<lparr>next_observation = None, reward = 1, terminated = True,
           truncated = True, step_info = \<lparr>true_label = 0, next_obs = None\<rparr>\<rparr>,
          init [[2, 1]] [0] [] [] [1, 1] 0)"
  by (simp add: step_def get_obs_def get_info_def np_get_def labels_def samples_def init_def
        strategic_response_Close_def np_index_def)


text \<open>
  C8. Whenever \<open>step\<close> returns, \<open>truncated\<close> is true exactly when the cursor plus one
  exceeds the configured maximum episode length, and \<open>terminated\<close> is true exactly
  when the cursor plus one reaches the length of the active split: two bounds, each
  flag decided by its own. Every one of the four pairs of flags occurs.
\<close>

theorem step_flags_independent:
  "(step cfg ga st a w = Inr (r, st') \<longrightarrow>
      (truncated r \<longleftrightarrow> maximum_episode_length st < int (samplePointer st) + 1) \<and>
      (terminated r \<longleftrightarrow> length (samples st) \<le> samplePointer st + 1)) \<and>
   (\<exists>c g s b v r' s'. step c g s b v = Inr (r', s') \<and> \<not> terminated r' \<and> \<not> truncated r') \<and>
   (\<exists>c g s b v r' s'. step c g s b v = Inr (r', s') \<and> terminated r' \<and> \<not> truncated r') \<and>
   (\<exists>c g s b v r' s'. step c g s b v = Inr (r', s') \<and> \<not> terminated r' \<and> truncated r') \<and>
   (\<exists>c g s b v r' s'. step c g s b v = Inr (r', s') \<and> terminated r' \<and> truncated r')"
proof (intro conjI impI)
  assume s: "step cfg ga st a w = Inr (r, st')"
  from step_result [OF s]
  show "truncated r \<longleftrightarrow> maximum_episode_length st < int (samplePointer st) + 1"
    by (rule conjunct2 [OF conjunct2 [OF conjunct2]])
  from step_result [OF s]
  show "terminated r \<longleftrightarrow> length (samples st) \<le> samplePointer st + 1"
    by (rule conjunct1 [OF conjunct2 [OF conjunct2]])
next
  show "\<exists>c g s b v r' s'. step c g s b v = Inr (r', s') \<and> \<not> terminated r' \<and> \<not> truncated r'"
    by (intro exI conjI, rule ex_ff) simp_all
  show "\<exists>c g s b v r' s'. step c g s b v = Inr (r', s') \<and> terminated r' \<and> \<not> truncated r'"
    by (intro exI conjI, rule ex_tf) simp_all
  show "\<exists>c g s b v r' s'. step c g s b v = Inr (r', s') \<and> \<not> terminated r' \<and> truncated r'"
    by (intro exI conjI, rule ex_ft) simp_all
  show "\<exists>c g s b v r' s'. step c g s b v = Inr (r', s') \<and> terminated r' \<and> truncated r'"
    by (intro exI conjI, rule ex_tt) simp_all
qed

theorem step_flags_independent_witness:
  "step \<lparr>strategic_response = True, response_method = ''Close'', epsilon = 1,
         strat_features = [0]\<rparr> no_ga
     (init [[2, 1], [3, 1]] [0, 1] [] [] [1, 1] 0) 0 None
   = Inr (\<lparr>next_observation = None, reward = 1, terminated = False,
           truncated = True, step_info = \<lparr>true_label = 0, next_obs = Some [2, 1]\<rparr>\<rparr>,
          init [[2, 1], [3, 1]] [0, 1] [] [] [1, 1] 0) \<and>
   (truncated \<lparr>next_observation = None, reward = 1, terminated = False,
           truncated = True, step_info = \<lparr>true_label = 0, next_obs = Some [2, 1]\<rparr>\<rparr> \<longleftrightarrow>
    maximum_episode_length (init [[2, 1], [3, 1]] [0, 1] [] [] [1, 1] 0)
      < int (samplePointer (init [[2, 1], [3, 1]] [0, 1] [] [] [1, 1] 0)) + 1) \<and>
   (terminated \<lparr>next_observation = None, reward = 1, terminated = False,
           truncated = True, step_info = \<lparr>true_label = 0, next_obs = Some [2, 1]\<rparr>\<rparr> \<longleftrightarrow>
    length (samples (init [[2, 1], [3, 1]] [0, 1] [] [] [1, 1] 0))
      \<le> samplePointer (init [[2, 1], [3, 1]] [0, 1] [] [] [1, 1] 0) + 1)"
  by (rule conjI [OF ex_ft mp [OF conjunct1 [OF step_flags_independent] ex_ft]])

lemma get_info_unknown:
  assumes "response_method cfg \<noteq> ''GA''" and "response_method cfg \<noteq> ''Close''"
  shows "get_info cfg ga st =
           (case np_get (labels st) (samplePointer st) of
              Inl e \<Rightarrow> Inl e
            | Inr t \<Rightarrow> Inr \<lparr>true_label = t, next_obs = None\<rparr>)"
  using assms by (simp add: get_info_def Let_def split: sum.splits)

lemma get_obs_unknown:
  assumes "response_method cfg \<noteq> ''GA''" and "response_method cfg \<noteq> ''Close''"
    and "samplePointer st < length (samples st)"
  shows "get_obs cfg ga st = Inl ValueError"
  using assms by (simp add: get_obs_def np_get_def)

lemma samples_set_pointer: "samples (st\<lparr>samplePointer := k\<rparr>) = samples st"
  by (simp add: samples_def)

lemma labels_set_pointer: "labels (st\<lparr>samplePointer := k\<rparr>) = labels st"
  by (simp add: labels_def)

text \<open>
  What an unknown response method does, path by path: every operation that produces an
  observation raises \<^verbatim>\<open>ValueError\<close>, while the look-ahead in \<open>get_info\<close> yields the
  label with \<open>next_obs = None\<close>.
\<close>

lemma unknown_response_method:
  assumes "response_method cfg \<noteq> ''GA''" and "response_method cfg \<noteq> ''Close''"
  shows "(samplePointer st < length (samples st) \<longrightarrow> get_obs cfg ga st = Inl ValueError) \<and>
         (samples st \<noteq> [] \<longrightarrow> reset cfg ga st = Inl ValueError) \<and>
         (samplePointer st < length (labels st) \<and>
          samplePointer st + 1 < length (samples st) \<and>
          int (samplePointer st) + 1 \<le> maximum_episode_length st \<longrightarrow>
            step cfg ga st a w = Inl ValueError) \<and>
         get_info cfg ga st =
           (case np_get (labels st) (samplePointer st) of
              Inl e \<Rightarrow> Inl e
            | Inr t \<Rightarrow> Inr \<lparr>true_label = t, next_obs = None\<rparr>)"
proof (intro conjI impI)
  assume "samplePointer st < length (samples st)"
  with assms show "get_obs cfg ga st = Inl ValueError"
    by (rule get_obs_unknown)
next
  assume ne: "samples st \<noteq> []"
  have "get_obs cfg ga (st\<lparr>samplePointer := 0\<rparr>) = Inl ValueError"
    using assms ne by (intro get_obs_unknown) (simp_all add: samples_set_pointer)
  then show "reset cfg ga st = Inl ValueError"
    by (simp add: reset_def)
next
  assume a: "samplePointer st < length (labels st) \<and>
          samplePointer st + 1 < length (samples st) \<and>
          int (samplePointer st) + 1 \<le> maximum_episode_length st"
  let ?st1 = "case w of None \<Rightarrow> st | Some v \<Rightarrow> st\<lparr>policy_weight := v\<rparr>"
  let ?st2 = "?st1\<lparr>samplePointer := samplePointer st + 1\<rparr>"
  have l: "np_get (labels st) (samplePointer st) = Inr (labels st ! samplePointer st)"
    using a by (simp add: np_get_def)
  have "samplePointer ?st2 < length (samples ?st2)"
    using a by (simp add: samples_set_pointer step_set_weights)
  with assms have o: "get_obs cfg ga ?st2 = Inl ValueError"
    by (rule get_obs_unknown)
  have c: "\<not> (length (samples st) \<le> samplePointer st + 1 \<or>
              maximum_episode_length st < int (samplePointer st + 1))"
    using a by simp
  show "step cfg ga st a w = Inl ValueError"
    unfolding step_def Let_def l sum.case step_set_weights
    using c o by (simp del: One_nat_def)
next
  show "get_info cfg ga st =
           (case np_get (labels st) (samplePointer st) of
              Inl e \<Rightarrow> Inl e
            | Inr t \<Rightarrow> Inr \<lparr>true_label = t, next_obs = None\<rparr>)"
    using assms by (rule get_info_unknown)
qed


lemma unknown_response_method_example:
  "get_obs \<lparr>strategic_response = True, response_method = ''Linear'', epsilon = 1,
         strat_features = [0]\<rparr> no_ga (init [[2, 1], [3, 1]] [0, 1] [] [] [1, 1] 10)
     = Inl ValueError \<and>
   reset \<lparr>strategic_response = True, response_method = ''Linear'', epsilon = 1,
         strat_features = [0]\<rparr> no_ga (init [[2, 1], [3, 1]] [0, 1] [] [] [1, 1] 10)
     = Inl ValueError \<and>
   step \<lparr>strategic_response = True, response_method = ''Linear'', epsilon = 1,
         strat_features = [0]\<rparr> no_ga (init [[2, 1], [3, 1]] [0, 1] [] [] [1, 1] 10) 0 None
     = Inl ValueError \<and>
   get_info \<lparr>strategic_response = True, response_method = ''Linear'', epsilon = 1,
         strat_features = [0]\<rparr> no_ga (init [[2, 1], [3, 1]] [0, 1] [] [] [1, 1] 10)
     = Inr \<lparr>true_label = 0, next_obs = None\<rparr>"
proof -
  let ?E = "init [[2, 1], [3, 1]] [0, 1] [] [] [1, 1] 10"
  let ?C = "\<lparr>strategic_response = True, response_method = ''Linear'', epsilon = 1,
         strat_features = [0]\<rparr>"
  have h1: "response_method ?C \<noteq> ''GA''" by simp
  have h2: "response_method ?C \<noteq> ''Close''" by simp
  note t = unknown_response_method [OF h1 h2, of ?E no_ga 0 None]
  have p1: "samplePointer ?E < length (samples ?E)"
    by (simp add: init_def samples_def)
  have p2: "samples ?E \<noteq> []"
    by (simp add: init_def samples_def)
  have p3: "samplePointer ?E < length (labels ?E) \<and>
          samplePointer ?E + 1 < length (samples ?E) \<and>
          int (samplePointer ?E) + 1 \<le> maximum_episode_length ?E"
    by (simp add: init_def samples_def labels_def)
  have q: "(case np_get (labels ?E) (samplePointer ?E) of
              Inl e \<Rightarrow> Inl e
            | Inr t \<Rightarrow> Inr \<lparr>true_label = t, next_obs = None\<rparr>)
           = Inr \<lparr>true_label = 0, next_obs = None\<rparr>"
    by (simp add: init_def labels_def np_get_def)
  from t have "get_obs ?C no_ga ?E = Inl ValueError"
    using p1 by blast
  moreover from t have "reset ?C no_ga ?E = Inl ValueError"
    using p2 by blast
  moreover from t have "step ?C no_ga ?E 0 None = Inl ValueError"
    using p3 by blast
  moreover from t have "get_info ?C no_ga ?E = Inr \<lparr>true_label = 0, next_obs = None\<rparr>"
    unfolding q by blast
  ultimately show ?thesis by blast
qed

text \<open>
  C7. The claim asks for an error on every path that consults the strategy, and
  \<open>get_obs\<close> raises one; the look-ahead does not. With the unknown method \<open>Linear\<close>,
  a split of two samples and a maximum episode length of 0, on the constructed
  environment: \<open>get_obs\<close> raises \<^verbatim>\<open>ValueError\<close>, \<open>get_info\<close> returns \<open>next_obs = None\<close>
  although the next sample exists, and \<open>step\<close> returns normally, truncated, with that
  info (\<open>ex_ft\<close> is the same call under \<open>Close\<close>, with \<open>next_obs = Some [2, 1]\<close>).
\<close>

theorem unknown_method_lookahead_silent:
  "get_obs \<lparr>strategic_response = True, response_method = ''Linear'', epsilon = 1,
         strat_features = [0]\<rparr> no_ga (init [[2, 1], [3, 1]] [0, 1] [] [] [1, 1] 0)
     = Inl ValueError \<and>
   get_info \<lparr>strategic_response = True, response_method = ''Linear'', epsilon = 1,
         strat_features = [0]\<rparr> no_ga (init [[2, 1], [3, 1]] [0, 1] [] [] [1, 1] 0)
     = Inr \<lparr>true_label = 0, next_obs = None\<rparr> \<and>
   step \<lparr>strategic_response = True, response_method = ''Linear'', epsilon = 1,
         strat_features = [0]\<rparr> no_ga
     (init [[2, 1], [3, 1]] [0, 1] [] [] [1, 1] 0) 0 None
   = Inr (\<lparr>next_observation = None, reward = 1, terminated = False,
           truncated = True, step_info = \<lparr>true_label = 0, next_obs = None\<rparr>\<rparr>,
          init [[2, 1], [3, 1]] [0, 1] [] [] [1, 1] 0)"
  by (simp add: step_def get_obs_def get_info_def np_get_def labels_def samples_def init_def)

lemma step_again:
  assumes "step cfg ga st a w = Inr (r, st')" and "terminated r"
  shows "step cfg ga st' a None = Inr (r, st')"
proof -
  from assms(1) obtain l where l: "np_get (labels st) (samplePointer st) = Inr l"
    by (cases "np_get (labels st) (samplePointer st)") (simp_all add: step_def)
  define rw :: int where "rw = (if a = 0 \<and> l = 0 then 1
                     else if a = 0 \<and> l = 1 then - 1
                     else if a = 1 \<and> l = 0 then - 1
                     else 1)"
  define st1 where "st1 = (case w of None \<Rightarrow> st | Some v \<Rightarrow> st\<lparr>policy_weight := v\<rparr>)"
  have T: "length (samples st) \<le> samplePointer st + 1"
    using step_result [OF assms(1)] assms(2) by blast
  note s = assms(1) [unfolded step_def Let_def l sum.case step_set_weights,
      folded rw_def st1_def]
  from s T obtain i where i: "get_info cfg ga st1 = Inr i"
    and r: "r = \<lparr>next_observation = None, reward = rw,
                 terminated = (length (samples st) \<le> samplePointer st + 1),
                 truncated = (maximum_episode_length st < int (samplePointer st + 1)),
                 step_info = i\<rparr>"
    and st': "st' = st1"
    by (cases "get_info cfg ga st1") (simp_all del: One_nat_def)
  have e: "samples st1 = samples st" "labels st1 = labels st"
     "samplePointer st1 = samplePointer st" "maximum_episode_length st1 = maximum_episode_length st"
    by (simp_all add: st1_def step_set_weights)
  show ?thesis
    unfolding st' step_def Let_def option.case e l sum.case
    unfolding rw_def [symmetric]
    using T i r by (simp del: One_nat_def)
qed

text \<open>
  C6, as the code has it. \<open>step\<close> has no sequencing check. A constructed
  environment is already in the state that a successful \<open>reset\<close> leaves, so \<open>step\<close>
  before any \<open>reset\<close> is \<open>step\<close> after \<open>reset\<close>. After a \<open>step\<close> that returned
  \<open>terminated = True\<close>, the same action again returns the same result again and the
  environment stays as it is.
\<close>

theorem step_without_reset:
  "(reset cfg ga (init tr_x tr_y te_x te_y pw mel) = Inr (oi, st0) \<longrightarrow>
      st0 = init tr_x tr_y te_x te_y pw mel) \<and>
   (step cfg ga st a w = Inr (r, st') \<and> terminated r \<longrightarrow>
      step cfg ga st' a None = Inr (r, st'))"
proof (intro conjI impI)
  assume "reset cfg ga (init tr_x tr_y te_x te_y pw mel) = Inr (oi, st0)"
  then show "st0 = init tr_x tr_y te_x te_y pw mel"
    by (simp add: reset_def init_def Let_def split: sum.splits)
next
  assume "step cfg ga st a w = Inr (r, st') \<and> terminated r"
  then show "step cfg ga st' a None = Inr (r, st')"
    by (elim conjE) (rule step_again)
qed


theorem step_without_reset_witness:
  "reset \<lparr>strategic_response = True, response_method = ''Close'', epsilon = 1,
         strat_features = [0]\<rparr> no_ga (init [[2, 1], [3, 1]] [0, 1] [] [] [1, 1] 10)
     = Inr (([1, 1], \<lparr>true_label = 0, next_obs = Some [2, 1]\<rparr>),
            init [[2, 1], [3, 1]] [0, 1] [] [] [1, 1] 10) \<and>
   terminated \<lparr>next_observation = None, reward = 1, terminated = True,
           truncated = False, step_info = \<lparr>true_label = 1, next_obs = None\<rparr>\<rparr> \<and>
   step \<lparr>strategic_response = True, response_method = ''Close'', epsilon = 1,
         strat_features = [0]\<rparr> no_ga
     ((init [[2, 1], [3, 1]] [0, 1] [] [] [1, 1] 10)\<lparr>samplePointer := 1\<rparr>) 1 None
     = Inr (\<lparr>next_observation = None, reward = 1, terminated = True,
           truncated = False, step_info = \<lparr>true_label = 1, next_obs = None\<rparr>\<rparr>,
          (init [[2, 1], [3, 1]] [0, 1] [] [] [1, 1] 10)\<lparr>samplePointer := 1\<rparr>)"
proof -
  let ?E = "init [[2, 1], [3, 1]] [0, 1] [] [] [1, 1] 10"
  let ?C = "\<lparr>strategic_response = True, response_method = ''Close'', epsilon = 1,
         strat_features = [0]\<rparr>"
  let ?R = "\<lparr>next_observation = None, reward = 1, terminated = True,
           truncated = False, step_info = \<lparr>true_label = 1, next_obs = None\<rparr>\<rparr>"
  have r: "reset ?C no_ga ?E = Inr (([1, 1], \<lparr>true_label = 0, next_obs = Some [2, 1]\<rparr>), ?E)"
    by (simp add: reset_def get_obs_def get_info_def np_get_def labels_def samples_def init_def
          strategic_response_Close_def np_index_def)
  have s: "step ?C no_ga (?E\<lparr>samplePointer := 1\<rparr>) 1 None = Inr (?R, ?E\<lparr>samplePointer := 1\<rparr>)"
    by (simp add: step_def get_obs_def get_info_def np_get_def labels_def samples_def init_def
          strategic_response_Close_def np_index_def)
  have t: "terminated ?R" by simp
  have "step ?C no_ga (?E\<lparr>samplePointer := 1\<rparr>) 1 None = Inr (?R, ?E\<lparr>samplePointer := 1\<rparr>)"
    by (rule mp [OF conjunct2 [OF step_without_reset] conjI [OF s t]])
  with r t show ?thesis by (intro conjI)
qed

text \<open>
  C6, the claim as stated fails: under the configuration of the source, \<open>step\<close> on
  a constructed environment that was never reset returns an observation and a reward;
  and the second call shown, which returns \<open>terminated = True\<close>, leaves the environment
  as it was, so that calling it again is the same call and returns again.
\<close>

theorem step_before_reset_returns:
  "step default_config no_ga
     (init [[0, 0, 0, 0, 0, 0, 0, 0, 0, 0, 1], [1, 1, 1, 1, 1, 1, 1, 1, 1, 1, 1]] [0, 1] [] []
        [1/10, 1/10, 1/10, 1/10, 1/10, 1/10, 1/10, 1/10, 1/10, 1/10, 1/10] 1000000) 0 None
   = Inr (\<lparr>next_observation = Some [9/10, 1, 1, 1, 1, 9/10, 1, 9/10, 1, 1, 1], reward = 1,
           terminated = False, truncated = False,
           step_info = \<lparr>true_label = 1, next_obs = None\<rparr>\<rparr>,
          (init [[0, 0, 0, 0, 0, 0, 0, 0, 0, 0, 1], [1, 1, 1, 1, 1, 1, 1, 1, 1, 1, 1]] [0, 1] [] []
            [1/10, 1/10, 1/10, 1/10, 1/10, 1/10, 1/10, 1/10, 1/10, 1/10, 1/10] 1000000)
          \<lparr>samplePointer := 1\<rparr>) \<and>
   step default_config no_ga
     ((init [[0, 0, 0, 0, 0, 0, 0, 0, 0, 0, 1], [1, 1, 1, 1, 1, 1, 1, 1, 1, 1, 1]] [0, 1] [] []
        [1/10, 1/10, 1/10, 1/10, 1/10, 1/10, 1/10, 1/10, 1/10, 1/10, 1/10] 1000000)
      \<lparr>samplePointer := 1\<rparr>) 1 None
   = Inr (\<lparr>next_observation = None, reward = 1, terminated = True, truncated = False,
           step_info = \<lparr>true_label = 1, next_obs = None\<rparr>\<rparr>,
          (init [[0, 0, 0, 0, 0, 0, 0, 0, 0, 0, 1], [1, 1, 1, 1, 1, 1, 1, 1, 1, 1, 1]] [0, 1] [] []
            [1/10, 1/10, 1/10, 1/10, 1/10, 1/10, 1/10, 1/10, 1/10, 1/10, 1/10] 1000000)
          \<lparr>samplePointer := 1\<rparr>)"
  by (simp add: step_def get_obs_def get_info_def np_get_def labels_def samples_def init_def
        strategic_response_Close_def np_index_def default_config_def)

lemma reward_same:
  fixes l :: int
  shows "(if l = 0 \<and> l = 0 then 1
          else if l = 0 \<and> l = 1 then - 1
          else if l = 1 \<and> l = 0 then - 1
          else (1::int)) = 1"
proof -
  consider "l = 0" | "l = 1" | "l \<noteq> 0" "l \<noteq> 1" by blast
  then show ?thesis by cases simp_all
qed

lemma get_info_at:
  assumes H: "\<forall>k<length (samples st). \<exists>v. get_obs cfg ga (st\<lparr>samplePointer := k\<rparr>) = Inr v"
    and len: "length (labels st) = length (samples st)"
    and k: "k < length (samples st)"
  shows "\<exists>i. get_info cfg ga (st\<lparr>samplePointer := k\<rparr>) = Inr i \<and>
             true_label i = labels st ! k"
proof -
  have l: "np_get (labels st) k = Inr (labels st ! k)"
    using k len by (simp add: np_get_def)
  show ?thesis
  proof (cases "k + 1 < length (samples st)")
    case False
    then show ?thesis
      using l by (simp add: get_info_def Let_def labels_set_pointer samples_set_pointer)
  next
    case True
    with H obtain v where v: "get_obs cfg ga (st\<lparr>samplePointer := k + 1\<rparr>) = Inr v"
      by blast
    have g: "np_get (samples st) (k + 1) = Inr (samples st ! (k + 1))"
      using True by (simp add: np_get_def)
    from v have v': "(if response_method cfg = ''GA'' then
            strategic_response_GA (strategic_response cfg) ga (samples st ! (k + 1))
              (policy_weight st)
          else if response_method cfg = ''Close'' then
            strategic_response_Close (strategic_response cfg) (samples st ! (k + 1))
              (policy_weight st) (epsilon cfg) (Some (strat_features cfg))
          else Inl ValueError) = Inr v"
      by (simp add: get_obs_def samples_set_pointer g del: One_nat_def cong: if_cong)
    show ?thesis
    proof (cases "response_method cfg = ''GA''")
      case ga: True
      with v' True l show ?thesis
        by (simp add: get_info_def Let_def labels_set_pointer samples_set_pointer
              del: One_nat_def)
    next
      case nga: False
      show ?thesis
      proof (cases "response_method cfg = ''Close''")
        case cl: True
        with v' nga True l show ?thesis
          by (simp add: get_info_def Let_def labels_set_pointer samples_set_pointer
                del: One_nat_def)
      next
        case ncl: False
        with v' nga show ?thesis by simp
      qed
    qed
  qed
qed

lemma step_label_next:
  assumes H: "\<forall>k<length (samples st). \<exists>v. get_obs cfg ga (st\<lparr>samplePointer := k\<rparr>) = Inr v"
    and len: "length (labels st) = length (samples st)"
    and mel: "int (length (samples st)) \<le> maximum_episode_length st"
    and k: "k + 1 < length (samples st)"
  shows "\<exists>v i. step cfg ga (st\<lparr>samplePointer := k\<rparr>) (labels st ! k) None =
           Inr (\<lparr>next_observation = Some v, reward = 1, terminated = False,
                  truncated = False, step_info = i\<rparr>, st\<lparr>samplePointer := k + 1\<rparr>) \<and>
           true_label i = labels st ! (k + 1)"
proof -
  have l: "np_get (labels st) k = Inr (labels st ! k)"
    using k len by (simp add: np_get_def)
  from H k obtain v where v: "get_obs cfg ga (st\<lparr>samplePointer := k + 1\<rparr>) = Inr v"
    by blast
  from get_info_at [OF H len k] obtain i where
    i: "get_info cfg ga (st\<lparr>samplePointer := k + 1\<rparr>) = Inr i"
       "true_label i = labels st ! (k + 1)"
    by blast
  have c: "\<not> (length (samples st) \<le> k + 1 \<or> maximum_episode_length st < int (k + 1))"
    using k mel by simp
  have "step cfg ga (st\<lparr>samplePointer := k\<rparr>) (labels st ! k) None =
           Inr (\<lparr>next_observation = Some v, reward = 1, terminated = False,
                  truncated = False, step_info = i\<rparr>, st\<lparr>samplePointer := k + 1\<rparr>)"
    unfolding step_def Let_def option.case labels_set_pointer samples_set_pointer
    using l c v i(1) by (simp add: reward_same del: One_nat_def)
  with i(2) show ?thesis by blast
qed

lemma step_label_last:
  assumes H: "\<forall>k<length (samples st). \<exists>v. get_obs cfg ga (st\<lparr>samplePointer := k\<rparr>) = Inr v"
    and len: "length (labels st) = length (samples st)"
    and mel: "int (length (samples st)) \<le> maximum_episode_length st"
    and k: "k + 1 = length (samples st)"
  shows "\<exists>i. step cfg ga (st\<lparr>samplePointer := k\<rparr>) (labels st ! k) None =
           Inr (\<lparr>next_observation = None, reward = 1, terminated = True,
                  truncated = False, step_info = i\<rparr>, st\<lparr>samplePointer := k\<rparr>)"
proof -
  have k': "k < length (samples st)" using k by simp
  have l: "np_get (labels st) k = Inr (labels st ! k)"
    using k len by (simp add: np_get_def)
  from get_info_at [OF H len k'] obtain i where
    i: "get_info cfg ga (st\<lparr>samplePointer := k\<rparr>) = Inr i"
    by blast
  have c: "length (samples st) \<le> k + 1" "\<not> maximum_episode_length st < int (k + 1)"
    using k mel by simp_all
  have "step cfg ga (st\<lparr>samplePointer := k\<rparr>) (labels st ! k) None =
           Inr (\<lparr>next_observation = None, reward = 1, terminated = True,
                  truncated = False, step_info = i\<rparr>, st\<lparr>samplePointer := k\<rparr>)"
    unfolding step_def Let_def option.case labels_set_pointer samples_set_pointer
    using l c i by (simp add: reward_same del: One_nat_def)
  then show ?thesis by blast
qed


lemma play_labels:
  assumes H: "\<forall>k<length (samples st). \<exists>v. get_obs cfg ga (st\<lparr>samplePointer := k\<rparr>) = Inr v"
    and len: "length (labels st) = length (samples st)"
    and mel: "int (length (samples st)) \<le> maximum_episode_length st"
  shows "k + Suc n = length (samples st) \<Longrightarrow> true_label i = labels st ! k \<Longrightarrow>
         play cfg ga (Suc n) i (st\<lparr>samplePointer := k\<rparr>) =
           Inr (replicate n (1, False, False) @ [(1, True, False)])"
proof (induction n arbitrary: k i)
  case 0
  then have "k + 1 = length (samples st)" by simp
  from step_label_last [OF H len mel this] obtain j where
    "step cfg ga (st\<lparr>samplePointer := k\<rparr>) (labels st ! k) None =
           Inr (\<lparr>next_observation = None, reward = 1, terminated = True,
                  truncated = False, step_info = j\<rparr>, st\<lparr>samplePointer := k\<rparr>)"
    by blast
  with "0.prems"(2) show ?case by simp
next
  case (Suc n)
  then have "k + 1 < length (samples st)" by simp
  from step_label_next [OF H len mel this] obtain v j where
    s: "step cfg ga (st\<lparr>samplePointer := k\<rparr>) (labels st ! k) None =
           Inr (\<lparr>next_observation = Some v, reward = 1, terminated = False,
                  truncated = False, step_info = j\<rparr>, st\<lparr>samplePointer := k + 1\<rparr>)"
    and j: "true_label j = labels st ! (k + 1)"
    by blast
  from Suc.prems(1) have "(k + 1) + Suc n = length (samples st)" by simp
  from Suc.IH [OF this j]
  have "play cfg ga (Suc n) j (st\<lparr>samplePointer := k + 1\<rparr>) =
           Inr (replicate n (1, False, False) @ [(1, True, False)])" .
  with s Suc.prems(2) show ?case
    by (simp del: play.simps add: play.simps(2) [of cfg ga "Suc n"])
qed

text \<open>
  C5. Take an active split of \<open>L > 0\<close> samples with as many labels, a maximum episode
  length of at least \<open>L\<close>, and a configuration under which the observation at every
  cursor of the split can be produced. Then \<open>reset\<close> followed by \<open>L\<close> calls of \<open>step\<close>,
  each with the true label at the cursor, returns \<open>L\<close> rewards, all \<open>+1\<close>, with
  \<open>terminated\<close> false on the first \<open>L - 1\<close> calls and true on the last, and
  \<open>truncated\<close> false throughout.
\<close>

theorem episode_true_labels:
  assumes "\<forall>k<length (samples st). \<exists>v. get_obs cfg ga (st\<lparr>samplePointer := k\<rparr>) = Inr v"
    and "length (labels st) = length (samples st)"
    and "int (length (samples st)) \<le> maximum_episode_length st"
    and "0 < length (samples st)"
  shows "episode cfg ga (length (samples st)) st =
           Inr (replicate (length (samples st) - 1) (1, False, False) @ [(1, True, False)])"
proof -
  from assms(4) obtain n where n: "length (samples st) = Suc n"
    by (cases "length (samples st)") simp_all
  from assms(1,4) obtain v where v: "get_obs cfg ga (st\<lparr>samplePointer := 0\<rparr>) = Inr v"
    by blast
  from get_info_at [OF assms(1,2,4)] obtain i where
    i: "get_info cfg ga (st\<lparr>samplePointer := 0\<rparr>) = Inr i" "true_label i = labels st ! 0"
    by blast
  have r: "reset cfg ga st = Inr ((v, i), st\<lparr>samplePointer := 0\<rparr>)"
    using v i(1) by (simp add: reset_def Let_def)
  have "0 + Suc n = length (samples st)" using n by simp
  from play_labels [OF assms(1,2,3) this i(2)]
  have "play cfg ga (Suc n) i (st\<lparr>samplePointer := 0\<rparr>) =
           Inr (replicate n (1, False, False) @ [(1, True, False)])" .
  then show ?thesis
    unfolding episode_def r n by simp
qed


theorem episode_true_labels_witness:
  "episode \<lparr>strategic_response = True, response_method = ''Close'', epsilon = 1,
         strat_features = [0]\<rparr> no_ga 2 (init [[2, 1], [3, 1]] [0, 1] [] [] [1, 1] 2)
     = Inr [(1, False, False), (1, True, False)]"
proof -
  let ?E = "init [[2, 1], [3, 1]] [0, 1] [] [] [1, 1] 2"
  let ?C = "\<lparr>strategic_response = True, response_method = ''Close'', epsilon = 1,
         strat_features = [0]\<rparr>"
  have n: "length (samples ?E) = 2"
    by (simp add: samples_def init_def)
  have h1: "\<forall>k<length (samples ?E). \<exists>v. get_obs ?C no_ga (?E\<lparr>samplePointer := k\<rparr>) = Inr v"
  proof (intro allI impI)
    fix k assume "k < length (samples ?E)"
    then have "k = 0 \<or> k = 1" unfolding n by arith
    then show "\<exists>v. get_obs ?C no_ga (?E\<lparr>samplePointer := k\<rparr>) = Inr v"
    proof
      assume "k = 0"
      then show ?thesis
        by (simp add: get_obs_def np_get_def samples_def init_def
              strategic_response_Close_def np_index_def)
    next
      assume "k = 1"
      then show ?thesis
        by (simp add: get_obs_def np_get_def samples_def init_def
              strategic_response_Close_def np_index_def)
    qed
  qed
  have h2: "length (labels ?E) = length (samples ?E)"
    by (simp add: samples_def labels_def init_def)
  have h3: "int (length (samples ?E)) \<le> maximum_episode_length ?E"
    by (simp add: samples_def init_def)
  have h4: "0 < length (samples ?E)"
    by (simp add: samples_def init_def)
  from episode_true_labels [OF h1 h2 h3 h4]
  have "episode ?C no_ga 2 ?E =
          Inr (replicate (2 - 1) (1, False, False) @ [(1, True, False)])"
    unfolding n .
  then show ?thesis by simp
qed

section \<open>Properties of the agent\<close>

lemma batch_body_frame:
  assumes "batch_body ag t = Inr (ag', cp)"
  shows "buffer ag' = buffer ag \<and> buffer_size ag' = buffer_size ag \<and>
         batch_update_count ag' = batch_update_count ag"
  using assms
  by (auto simp: batch_body_def Let_def
           split: prod.splits sum.splits option.splits bool.splits)

lemma batch_loop_frame:
  "batch_loop ag ts accs = Inr (ag', accs') \<Longrightarrow>
     buffer ag' = buffer ag \<and> buffer_size ag' = buffer_size ag \<and>
     batch_update_count ag' = batch_update_count ag"
proof (induction ts arbitrary: ag accs)
  case Nil
  then show ?case by simp
next
  case (Cons t ts)
  from Cons.prems obtain ag1 cp where
    b: "batch_body ag t = Inr (ag1, cp)" and
    r: "batch_loop ag1 ts (accs @ [cp]) = Inr (ag', accs')"
    by (auto split: sum.splits)
  from batch_body_frame [OF b] Cons.IH [OF r] show ?case by simp
qed

lemma batch_update_buffer:
  assumes "batch_update shuffle ag = Inr ag'"
  shows "buffer_size ag' = buffer_size ag \<and>
         (if length (buffer ag) < buffer_size ag then ag' = ag
          else buffer ag' = [] \<and> batch_update_count ag' = batch_update_count ag + 1)"
proof (cases "length (buffer ag) < buffer_size ag")
  case True
  with assms show ?thesis by (simp add: batch_update_def)
next
  case False
  let ?ag1 = "ag\<lparr>batch_update_count := batch_update_count ag + 1\<rparr>"
  from assms False obtain ag2 accs where
    l: "batch_loop ?ag1 (shuffle (buffer ag)) [] = Inr (ag2, accs)" and
    e: "ag' = ag2\<lparr>buffer := [], training_batch_acc := training_batch_acc ag2 @ [np_mean accs]\<rparr>"
    by (auto simp: batch_update_def Let_def split: sum.splits)
  from batch_loop_frame [OF l] e False show ?thesis by simp
qed

lemma length_deque_append:
  "length d \<le> n \<Longrightarrow> length (deque_append n d x) = min (length d + 1) n"
  by (simp add: deque_append_def)

lemma deque_append_room:
  "length d < n \<Longrightarrow> deque_append n d x = d @ [x]"
  by (simp add: deque_append_def)


lemma update_buffer:
  assumes u: "update shuffle ag ob a rw tm i p = Inr ag'"
    and inv: "length (buffer ag) \<le> buffer_size ag"
  shows "buffer_size ag' = buffer_size ag \<and>
         (if buffer_size ag \<le> length (buffer ag) + 1
          then batch_update_count ag' = batch_update_count ag + 1 \<and> buffer ag' = []
          else batch_update_count ag' = batch_update_count ag \<and>
               buffer ag' = buffer ag @ [(ob, a, rw, tm, next_obs i, true_label i)] \<and>
               previous_policy_weight ag' = previous_policy_weight ag \<and>
               q_weights ag' = q_weights ag)"
proof -
  let ?sample = "(ob, a, rw, tm, next_obs i, true_label i)"
  let ?ag1 = "ag\<lparr>buffer := deque_append (buffer_size ag) (buffer ag) ?sample\<rparr>"
  have len1: "length (buffer ?ag1) = min (length (buffer ag) + 1) (buffer_size ag)"
    using inv by (simp add: length_deque_append)
  show ?thesis
  proof (cases "buffer_size ag \<le> length (buffer ag) + 1")
    case True
    then have full: "buffer_size ?ag1 \<le> length (buffer ?ag1)"
      using len1 by simp
    with u obtain ag2 where
      b: "batch_update shuffle ?ag1 = Inr ag2" and
      f: "buffer ag' = buffer ag2" "buffer_size ag' = buffer_size ag2"
         "batch_update_count ag' = batch_update_count ag2"
      by (auto simp: update_def Let_def split: sum.splits)
    from batch_update_buffer [OF b] full
    have "buffer_size ag2 = buffer_size ag \<and> buffer ag2 = [] \<and>
          batch_update_count ag2 = batch_update_count ag + 1"
      by (simp add: not_less [symmetric])
    with f True show ?thesis by simp
  next
    case False
    then have room: "length (buffer ag) < buffer_size ag" by simp
    then have app: "deque_append (buffer_size ag) (buffer ag) ?sample = buffer ag @ [?sample]"
      by (rule deque_append_room)
    have "\<not> buffer_size ?ag1 \<le> length (buffer ?ag1)"
      using False len1 by simp
    with u have "buffer ag' = buffer ?ag1 \<and> buffer_size ag' = buffer_size ag \<and>
         batch_update_count ag' = batch_update_count ag \<and>
         previous_policy_weight ag' = previous_policy_weight ag \<and>
         q_weights ag' = q_weights ag"
      by (auto simp: update_def Let_def)
    with app False show ?thesis by simp
  qed
qed

lemma updates_count:
  "updates shuffle ag calls = Inr ag' \<Longrightarrow> length (buffer ag) < buffer_size ag \<Longrightarrow>
     buffer_size ag' = buffer_size ag \<and>
     length (buffer ag') = (length (buffer ag) + length calls) mod buffer_size ag \<and>
     batch_update_count ag' =
       batch_update_count ag + (length (buffer ag) + length calls) div buffer_size ag"
proof (induction calls arbitrary: ag)
  case Nil
  then show ?case by simp
next
  case (Cons c calls)
  obtain ob a rw tm i p where c: "c = (ob, a, rw, tm, i, p)"
    by (cases c) auto
  from Cons.prems(1) c obtain ag1 where
    u: "update shuffle ag ob a rw tm i p = Inr ag1" and
    r: "updates shuffle ag1 calls = Inr ag'"
    by (auto split: sum.splits)
  have inv: "length (buffer ag) \<le> buffer_size ag"
    using Cons.prems(2) by simp
  note ub = update_buffer [OF u inv]
  then have size1: "buffer_size ag1 = buffer_size ag" by simp
  show ?case
  proof (cases "buffer_size ag \<le> length (buffer ag) + 1")
    case True
    with Cons.prems(2) have eq: "length (buffer ag) + 1 = buffer_size ag" by simp
    from ub True have b1: "buffer ag1 = []"
      and c1: "batch_update_count ag1 = batch_update_count ag + 1" by simp_all
    have "length (buffer ag1) < buffer_size ag1"
      using b1 size1 Cons.prems(2) by simp
    from Cons.IH [OF r this]
    have ih: "buffer_size ag' = buffer_size ag"
      "length (buffer ag') = length calls mod buffer_size ag"
      "batch_update_count ag' = batch_update_count ag + 1 + length calls div buffer_size ag"
      by (simp_all add: b1 c1 size1)
    have e2: "length (buffer ag) + length (c # calls) = buffer_size ag + length calls"
      using eq by simp
    have pos: "buffer_size ag \<noteq> 0"
      using Cons.prems(2) by simp
    show ?thesis
      unfolding e2 using ih pos by simp
  next
    case False
    with ub have b1: "buffer ag1 = buffer ag @ [(ob, a, rw, tm, next_obs i, true_label i)]"
      and c1: "batch_update_count ag1 = batch_update_count ag" by simp_all
    have "length (buffer ag1) < buffer_size ag1"
      using b1 size1 False by simp
    from Cons.IH [OF r this] show ?thesis
      by (simp add: b1 c1 size1)
  qed
qed

lemma updates_bounded:
  "updates shuffle ag calls = Inr ag' \<Longrightarrow> length (buffer ag) \<le> buffer_size ag \<Longrightarrow>
     buffer_size ag' = buffer_size ag \<and> length (buffer ag') \<le> buffer_size ag'"
proof (induction calls arbitrary: ag)
  case Nil
  then show ?case by simp
next
  case (Cons c calls)
  obtain ob a rw tm i p where c: "c = (ob, a, rw, tm, i, p)"
    by (cases c) auto
  from Cons.prems(1) c obtain ag1 where
    u: "update shuffle ag ob a rw tm i p = Inr ag1" and
    r: "updates shuffle ag1 calls = Inr ag'"
    by (auto split: sum.splits)
  note ub = update_buffer [OF u Cons.prems(2)]
  then have size1: "buffer_size ag1 = buffer_size ag" by simp
  have "length (buffer ag1) \<le> buffer_size ag1"
  proof (cases "buffer_size ag \<le> length (buffer ag) + 1")
    case True
    with ub show ?thesis by simp
  next
    case False
    with ub size1 show ?thesis by simp
  qed
  from Cons.IH [OF r this] size1 show ?case by simp
qed

text \<open>
  C4. For an agent whose buffer holds at most \<open>buffer_size\<close> transitions: after a call
  of \<open>update\<close> that returns, the buffer again holds at most \<open>buffer_size\<close>; the batch
  update ran (the counter went up by one) exactly when the appended buffer reached
  \<open>buffer_size\<close>, and then the buffer is empty afterwards; otherwise the buffer is the
  old one with the new transition appended and both weight vectors are unchanged.
  The bound holds after every sequence of calls, and from an empty buffer of capacity
  \<open>N > 0\<close>, \<open>k\<close> calls leave \<open>k mod N\<close> transitions after \<open>k div N\<close> batch updates.
\<close>

theorem replay_buffer_invariant:
  "(update shuffle ag ob a rw tm i p = Inr ag1 \<and> length (buffer ag) \<le> buffer_size ag \<longrightarrow>
      buffer_size ag1 = buffer_size ag \<and> length (buffer ag1) \<le> buffer_size ag1 \<and>
      (if buffer_size ag \<le> length (buffer ag) + 1
       then batch_update_count ag1 = batch_update_count ag + 1 \<and> buffer ag1 = []
       else batch_update_count ag1 = batch_update_count ag \<and>
            buffer ag1 = buffer ag @ [(ob, a, rw, tm, next_obs i, true_label i)] \<and>
            previous_policy_weight ag1 = previous_policy_weight ag \<and>
            q_weights ag1 = q_weights ag)) \<and>
   (updates shuffle ag calls = Inr ag' \<and> length (buffer ag) \<le> buffer_size ag \<longrightarrow>
      buffer_size ag' = buffer_size ag \<and> length (buffer ag') \<le> buffer_size ag') \<and>
   (updates shuffle ag calls = Inr ag' \<and> buffer ag = [] \<and> 0 < buffer_size ag \<longrightarrow>
      length (buffer ag') = length calls mod buffer_size ag \<and>
      batch_update_count ag' = batch_update_count ag + length calls div buffer_size ag)"
proof (intro conjI impI)
  assume a: "update shuffle ag ob a rw tm i p = Inr ag1 \<and> length (buffer ag) \<le> buffer_size ag"
  then have u: "update shuffle ag ob a rw tm i p = Inr ag1"
    and inv: "length (buffer ag) \<le> buffer_size ag" by simp_all
  note ub = update_buffer [OF u inv]
  from ub show "buffer_size ag1 = buffer_size ag" by simp
  from ub show "if buffer_size ag \<le> length (buffer ag) + 1
       then batch_update_count ag1 = batch_update_count ag + 1 \<and> buffer ag1 = []
       else batch_update_count ag1 = batch_update_count ag \<and>
            buffer ag1 = buffer ag @ [(ob, a, rw, tm, next_obs i, true_label i)] \<and>
            previous_policy_weight ag1 = previous_policy_weight ag \<and>
            q_weights ag1 = q_weights ag" by simp
  show "length (buffer ag1) \<le> buffer_size ag1"
  proof (cases "buffer_size ag \<le> length (buffer ag) + 1")
    case True
    with ub show ?thesis by simp
  next
    case False
    with ub show ?thesis by simp
  qed
next
  assume a: "updates shuffle ag calls = Inr ag' \<and> length (buffer ag) \<le> buffer_size ag"
  then have u: "updates shuffle ag calls = Inr ag'"
    and inv: "length (buffer ag) \<le> buffer_size ag" by simp_all
  from updates_bounded [OF u inv]
  show "buffer_size ag' = buffer_size ag" "length (buffer ag') \<le> buffer_size ag'"
    by simp_all
next
  assume a: "updates shuffle ag calls = Inr ag' \<and> buffer ag = [] \<and> 0 < buffer_size ag"
  then have u: "updates shuffle ag calls = Inr ag'"
    and inv: "length (buffer ag) < buffer_size ag" by simp_all
  from updates_count [OF u inv] a show "length (buffer ag') = length calls mod buffer_size ag"
    "batch_update_count ag' = batch_update_count ag + length calls div buffer_size ag"
    by simp_all
qed

lemma np_dot_nth:
  "length a = length b \<Longrightarrow> np_dot a b = Inr (\<Sum>k<length a. a ! k * b ! k)"
  by (simp add: np_dot_def sum_list_sum_nth atLeast0LessThan)

lemma np_clip_clip10: "np_clip v (- 10) 10 = clip10 v"
  by (simp add: np_clip_def clip10_def min_def max_def)

lemma batch_body_value:
  assumes "length ob = length (previous_policy_weight ag)"
    and "length (q_weights ag) = length ob + 1"
    and "\<not> tm \<longrightarrow> (\<forall>n. nxt = Some n \<longrightarrow> length n = length ob)"
  shows "batch_body ag (ob, a, r, tm, nxt, lab) =
     Inr (ag\<lparr>q_weights :=
              map2 (+) (q_weights ag)
                (map (\<lambda>v. lr_c ag * td_error_spec ag (ob, a, r, tm, nxt, lab) * v)
                   (ob @ [real_of_int a])),
            previous_policy_weight :=
              map2 (+) (previous_policy_weight ag)
                (map (\<lambda>v. clip10 (lr_a ag * td_error_spec ag (ob, a, r, tm, nxt, lab) *
                              clip10 ((real_of_int a - policy_prob ag ob) * v)
                            / real (buffer_size ag))) ob),
            training_single_policy_weight_update :=
              training_single_policy_weight_update ag @
                [map (\<lambda>v. clip10 (lr_a ag * td_error_spec ag (ob, a, r, tm, nxt, lab) *
                              clip10 ((real_of_int a - policy_prob ag ob) * v)
                            / real (buffer_size ag))) ob]\<rparr>,
          if lab = 1 then policy_prob ag ob else 1 - policy_prob ag ob)"
proof -
  have q: "np_dot (q_weights ag) (ob @ [real_of_int a])
            = Inr (Q_value (q_weights ag) ob (real_of_int a))"
    using assms(2) by (simp add: np_dot_nth Q_value_def)
  have p: "np_dot (previous_policy_weight ag) ob
            = Inr (\<Sum>k<length ob. previous_policy_weight ag ! k * ob ! k)"
    using assms(1) by (simp add: np_dot_nth)
  show ?thesis
  proof (cases tm)
    case True
    then show ?thesis
      by (cases nxt)
         (simp_all add: batch_body_def Let_def q p np_clip_clip10 clipVal_td_def
            clipVal_grad_log_pi_def clipVal_policyWeight_def td_error_spec_def
            td_target_spec_def policy_prob_def sigmoid_def comp_def)
  next
    case False
    show ?thesis
    proof (cases nxt)
      case None
      with False show ?thesis
        by (simp add: batch_body_def Let_def q p np_clip_clip10 clipVal_td_def
            clipVal_grad_log_pi_def clipVal_policyWeight_def td_error_spec_def
            td_target_spec_def policy_prob_def sigmoid_def comp_def)
    next
      case (Some n)
      with assms(3) False have n: "length n = length ob" by simp
      have q0: "np_dot (q_weights ag) (n @ [0]) = Inr (Q_value (q_weights ag) n 0)"
        and q1: "np_dot (q_weights ag) (n @ [1]) = Inr (Q_value (q_weights ag) n 1)"
        using assms(2) n by (simp_all add: np_dot_nth Q_value_def)
      from False Some show ?thesis
        by (simp add: batch_body_def Let_def q p q0 q1 np_clip_clip10 clipVal_td_def
            clipVal_grad_log_pi_def clipVal_policyWeight_def td_error_spec_def
            td_target_spec_def policy_prob_def sigmoid_def comp_def)
    qed
  qed
qed


lemma batch_body_total:
  assumes "shapes_ok n ag" and "transition_ok n t"
  shows "\<exists>ag' cp. batch_body ag t = Inr (ag', cp) \<and> shapes_ok n ag'"
proof -
  obtain ob a r tm nxt lab where t: "t = (ob, a, r, tm, nxt, lab)"
    by (cases t) auto
  from assms t have 1: "length ob = length (previous_policy_weight ag)"
    and 2: "length (q_weights ag) = length ob + 1"
    and 3: "\<not> tm \<longrightarrow> (\<forall>x. nxt = Some x \<longrightarrow> length x = length ob)"
    by (auto simp: shapes_ok_def transition_ok_def)
  from batch_body_value [OF 1 2 3, of a r lab] assms(1) 1 2 show ?thesis
    unfolding t by (simp add: shapes_ok_def)
qed

lemma batch_loop_total:
  "shapes_ok n ag \<Longrightarrow> \<forall>t\<in>set ts. transition_ok n t \<Longrightarrow>
     \<exists>ag' accs'. batch_loop ag ts accs = Inr (ag', accs') \<and> shapes_ok n ag'"
proof (induction ts arbitrary: ag accs)
  case Nil
  then show ?case by simp
next
  case (Cons t ts)
  from Cons.prems have "transition_ok n t" by simp
  from batch_body_total [OF Cons.prems(1) this] obtain ag1 cp where
    b: "batch_body ag t = Inr (ag1, cp)" and s: "shapes_ok n ag1" by blast
  from Cons.prems(2) have "\<forall>t\<in>set ts. transition_ok n t" by simp
  from Cons.IH [OF s this, of "accs @ [cp]"] b show ?case by simp
qed

lemma batch_update_total:
  assumes "shapes_ok n ag" and "\<forall>t\<in>set (buffer ag). transition_ok n t"
    and "\<forall>b. set (shuffle b) \<subseteq> set b"
  shows "\<exists>ag'. batch_update shuffle ag = Inr ag' \<and> shapes_ok n ag'"
proof (cases "length (buffer ag) < buffer_size ag")
  case True
  with assms(1) show ?thesis by (simp add: batch_update_def)
next
  case False
  let ?ag1 = "ag\<lparr>batch_update_count := batch_update_count ag + 1\<rparr>"
  have s1: "shapes_ok n ?ag1" using assms(1) by (simp add: shapes_ok_def)
  have "\<forall>t\<in>set (shuffle (buffer ag)). transition_ok n t"
    using assms(2,3) by blast
  from batch_loop_total [OF s1 this, of "[]"] obtain ag2 accs where
    l: "batch_loop ?ag1 (shuffle (buffer ag)) [] = Inr (ag2, accs)" and s2: "shapes_ok n ag2"
    by blast
  from False l s2 show ?thesis
    by (simp add: batch_update_def Let_def shapes_ok_def)
qed

lemma set_deque_append: "set (deque_append m d x) \<subseteq> insert x (set d)"
proof -
  have "set (drop (length d + 1 - m) (d @ [x])) \<subseteq> set (d @ [x])"
    by (rule set_drop_subset)
  then show ?thesis by (simp add: deque_append_def)
qed

lemma update_total:
  assumes "shapes_ok n ag" and "\<forall>t\<in>set (buffer ag). transition_ok n t"
    and "\<forall>b. set (shuffle b) \<subseteq> set b"
    and "transition_ok n (ob, a, rw, tm, next_obs i, true_label i)"
    and "length (buffer ag) \<le> buffer_size ag"
  shows "\<exists>ag'. update shuffle ag ob a rw tm i p = Inr ag' \<and> shapes_ok n ag' \<and>
            (\<forall>t\<in>set (buffer ag'). transition_ok n t)"
proof -
  let ?sample = "(ob, a, rw, tm, next_obs i, true_label i)"
  let ?ag1 = "ag\<lparr>buffer := deque_append (buffer_size ag) (buffer ag) ?sample\<rparr>"
  have s1: "shapes_ok n ?ag1" using assms(1) by (simp add: shapes_ok_def)
  have b1: "\<forall>t\<in>set (buffer ?ag1). transition_ok n t"
    using assms(2,4) set_deque_append [of "buffer_size ag" "buffer ag" ?sample] by auto
  show ?thesis
  proof (cases "buffer_size ?ag1 \<le> length (buffer ?ag1)")
    case True
    from batch_update_total [OF s1 b1 assms(3)] obtain ag2 where
      b: "batch_update shuffle ?ag1 = Inr ag2" and s2: "shapes_ok n ag2" by blast
    from batch_update_buffer [OF b] True have e: "buffer ag2 = []"
      by (simp add: not_less [symmetric])
    have "update shuffle ag ob a rw tm i p =
        Inr (ag2\<lparr>
          training_expected_acc_list := training_expected_acc_list ag2
             @ [if true_label i = 1 then p else 1 - p],
          training_error := training_error ag2 @ [\<bar>p - real_of_int (true_label i)\<bar>],
          training_rewards := training_rewards ag2 @ [rw],
          training_policy_weights :=
            training_policy_weights ag2 @ [previous_policy_weight ag2],
          training_acc_detail :=
            training_acc_detail ag2
              @ [(p, a, true_label i, if true_label i = 1 then p else 1 - p, rw)]\<rparr>)"
      using True b by (simp add: update_def Let_def)
    with s2 e show ?thesis by (simp add: shapes_ok_def)
  next
    case False
    then have "update shuffle ag ob a rw tm i p =
        Inr (?ag1\<lparr>
          training_expected_acc_list := training_expected_acc_list ?ag1
             @ [if true_label i = 1 then p else 1 - p],
          training_error := training_error ?ag1 @ [\<bar>p - real_of_int (true_label i)\<bar>],
          training_rewards := training_rewards ?ag1 @ [rw],
          training_policy_weights :=
            training_policy_weights ?ag1 @ [previous_policy_weight ?ag1],
          training_acc_detail :=
            training_acc_detail ?ag1
              @ [(p, a, true_label i, if true_label i = 1 then p else 1 - p, rw)]\<rparr>)"
      by (simp add: update_def Let_def)
    with s1 b1 show ?thesis by (simp add: shapes_ok_def)
  qed
qed


theorem replay_buffer_invariant_witness:
  "\<exists>ag'. updates rev (Principal_v5 1 (1/1000) (1/1000) 2 (99/100) [0, 0])
            [([2, 1], 1, 1, False, \<lparr>true_label = 1, next_obs = Some [3, 1]\<rparr>, 1/2),
             ([3, 1], 0, - 1, True, \<lparr>true_label = 1, next_obs = None\<rparr>, 1/2)] = Inr ag' \<and>
          length (buffer ag') = 0 \<and> batch_update_count ag' = 1"
proof -
  let ?A = "Principal_v5 1 (1/1000) (1/1000) 2 (99/100) [0, 0]"
  let ?i1 = "\<lparr>true_label = 1, next_obs = Some [3, 1]\<rparr>"
  let ?i2 = "\<lparr>true_label = 1, next_obs = None\<rparr>"
  let ?calls = "[([2, 1], 1, 1, False, ?i1, 1/2), ([3, 1], 0, - 1, True, ?i2, 1/2)]
                  :: observation list"
  have s0: "shapes_ok 2 ?A" by (simp add: shapes_ok_def Principal_v5_def)
  have b0: "\<forall>t\<in>set (buffer ?A). transition_ok 2 t" by (simp add: Principal_v5_def)
  have sh: "\<forall>b::transition list. set (rev b) \<subseteq> set b" by simp
  have l0: "length (buffer ?A) \<le> buffer_size ?A" by (simp add: Principal_v5_def)
  have t1: "transition_ok 2 ([2, 1], 1, 1, False, next_obs ?i1, true_label ?i1)"
    by (simp add: transition_ok_def)
  have t2: "transition_ok 2 ([3, 1], 0, - 1, True, next_obs ?i2, true_label ?i2)"
    by (simp add: transition_ok_def)
  from update_total [OF s0 b0 sh t1 l0, of "1/2"] obtain A1 where
    u1: "update rev ?A [2, 1] 1 1 False ?i1 (1/2) = Inr A1" and s1: "shapes_ok 2 A1"
    and b1: "\<forall>t\<in>set (buffer A1). transition_ok 2 t" by blast
  have l1: "length (buffer A1) \<le> buffer_size A1"
    using updates_bounded [of rev ?A "[([2, 1], 1, 1, False, ?i1, 1/2)]" A1] u1 l0 by simp
  from update_total [OF s1 b1 sh t2 l1, of "1/2"] obtain A2 where
    u2: "update rev A1 [3, 1] 0 (- 1) True ?i2 (1/2) = Inr A2" by blast
  have u: "updates rev ?A ?calls = Inr A2"
    using u1 u2 by simp
  have e: "buffer ?A = []" and z: "batch_update_count ?A = 0" and n: "buffer_size ?A = 2"
    by (simp_all add: Principal_v5_def)
  have pos: "0 < buffer_size ?A" unfolding n by simp
  have "length (buffer A2) = length ?calls mod buffer_size ?A \<and>
      batch_update_count A2 = batch_update_count ?A + length ?calls div buffer_size ?A"
    by (rule mp [OF conjunct2 [OF conjunct2 [OF replay_buffer_invariant]]
          conjI [OF u conjI [OF e pos]]])
  then have "length (buffer A2) = 0 \<and> batch_update_count A2 = 1"
    unfolding n z by simp
  with u show ?thesis by blast
qed

text \<open>The TD error and the policy probability of one concrete transition.\<close>

lemma example_td_error:
  "td_error_spec (Principal_v5 1 (1/1000) (1/1000) 2 (99/100) [0, 0])
     ([2, 1], 1, 1, False, Some [3, 1], 1) = 2019/2000"
  by (simp add: td_error_spec_def td_target_spec_def Q_value_def Principal_v5_def clip10_def
        numeral_3_eq_3 lessThan_Suc nth_append)

lemma example_policy_prob:
  "policy_prob (Principal_v5 1 (1/1000) (1/1000) 2 (99/100) [0, 0]) [2, 1] = 1/2"
  by (simp add: policy_prob_def sigmoid_def Principal_v5_def numeral_2_eq_2 lessThan_Suc)


lemma rule_lists:
  assumes "length ob = length (previous_policy_weight ag)"
    and "length (q_weights ag) = length ob + 1"
  shows "map2 (+) (q_weights ag)
           (map (\<lambda>v. lr_c ag * td_error_spec ag (ob, a, r, tm, nxt, lab) * v)
              (ob @ [real_of_int a])) = rule_q ag (ob, a, r, tm, nxt, lab)"
    and "map2 (+) (previous_policy_weight ag)
           (map (\<lambda>v. clip10 (lr_a ag * td_error_spec ag (ob, a, r, tm, nxt, lab) *
                              clip10 ((real_of_int a - policy_prob ag ob) * v)
                            / real (buffer_size ag))) ob) = rule_theta ag (ob, a, r, tm, nxt, lab)"
proof -
  show "map2 (+) (q_weights ag)
           (map (\<lambda>v. lr_c ag * td_error_spec ag (ob, a, r, tm, nxt, lab) * v)
              (ob @ [real_of_int a])) = rule_q ag (ob, a, r, tm, nxt, lab)"
    using assms(2) by (intro nth_equalityI) (simp_all add: rule_q_def del: map_append upt_Suc)
  show "map2 (+) (previous_policy_weight ag)
           (map (\<lambda>v. clip10 (lr_a ag * td_error_spec ag (ob, a, r, tm, nxt, lab) *
                              clip10 ((real_of_int a - policy_prob ag ob) * v)
                            / real (buffer_size ag))) ob) = rule_theta ag (ob, a, r, tm, nxt, lab)"
    using assms(1) by (intro nth_equalityI) (simp_all add: rule_theta_def del: upt_Suc)
qed

lemma batch_body_rule:
  assumes "length ob = length (previous_policy_weight ag)"
    and "length (q_weights ag) = length ob + 1"
    and "\<not> tm \<longrightarrow> (\<forall>n. nxt = Some n \<longrightarrow> length n = length ob)"
  shows "\<exists>ag'. batch_body ag (ob, a, r, tm, nxt, lab) =
            Inr (ag', if lab = 1 then policy_prob ag ob else 1 - policy_prob ag ob) \<and>
          q_weights ag' = rule_q ag (ob, a, r, tm, nxt, lab) \<and>
          previous_policy_weight ag' = rule_theta ag (ob, a, r, tm, nxt, lab) \<and>
          learn_eq ag' (rule_step ag (ob, a, r, tm, nxt, lab))"
  using batch_body_value [OF assms, of a r lab] rule_lists [OF assms(1,2), of a r tm nxt lab]
  by (simp add: learn_eq_def rule_step_def)

lemma rule_cong:
  assumes "learn_eq ag bg"
  shows "rule_q ag t = rule_q bg t" and "rule_theta ag t = rule_theta bg t"
proof -
  from assms have e: "discount_factor ag = discount_factor bg" "lr_a ag = lr_a bg"
    "lr_c ag = lr_c bg" "previous_policy_weight ag = previous_policy_weight bg"
    "q_weights ag = q_weights bg" "buffer_size ag = buffer_size bg"
    by (simp_all add: learn_eq_def)
  obtain ob a r tm nxt lab where t: "t = (ob, a, r, tm, nxt, lab)"
    by (cases t) auto
  have tt: "td_target_spec ag t = td_target_spec bg t"
    unfolding t td_target_spec_def e by simp
  have te: "td_error_spec ag t = td_error_spec bg t"
    unfolding td_error_spec_def tt e by simp
  have pp: "policy_prob ag ob = policy_prob bg ob"
    unfolding policy_prob_def e by simp
  show "rule_q ag t = rule_q bg t"
    unfolding rule_q_def te e by simp
  show "rule_theta ag t = rule_theta bg t"
    using pp te unfolding t by (simp add: rule_theta_def e)
qed

lemma learn_eq_rule_step:
  "learn_eq ag bg \<Longrightarrow> learn_eq (rule_step ag t) (rule_step bg t)"
  using rule_cong [of ag bg t] by (simp add: learn_eq_def rule_step_def)

lemma learn_eq_trans: "learn_eq a b \<Longrightarrow> learn_eq b c \<Longrightarrow> learn_eq a c"
  by (simp add: learn_eq_def)

lemma length_rule:
  "length (rule_q ag t) = length (q_weights ag)"
  "length (rule_theta ag t) = length (previous_policy_weight ag)"
  by (simp_all add: rule_q_def rule_theta_def split: prod.splits)

lemma batch_body_learn:
  assumes "shapes_ok n ag" and "transition_ok n t"
  shows "\<exists>ag' cp. batch_body ag t = Inr (ag', cp) \<and> shapes_ok n ag' \<and>
           learn_eq ag' (rule_step ag t)"
proof -
  obtain ob a r tm nxt lab where t: "t = (ob, a, r, tm, nxt, lab)"
    by (cases t) auto
  from assms t have 1: "length ob = length (previous_policy_weight ag)"
    and 2: "length (q_weights ag) = length ob + 1"
    and 3: "\<not> tm \<longrightarrow> (\<forall>x. nxt = Some x \<longrightarrow> length x = length ob)"
    by (auto simp: shapes_ok_def transition_ok_def)
  from batch_body_rule [OF 1 2 3, of a r lab] obtain ag' where
    b: "batch_body ag t = Inr (ag', if lab = 1 then policy_prob ag ob else 1 - policy_prob ag ob)"
    and q: "q_weights ag' = rule_q ag t" and p: "previous_policy_weight ag' = rule_theta ag t"
    and l: "learn_eq ag' (rule_step ag t)"
    unfolding t by blast
  have "shapes_ok n ag'"
    using assms(1) q p by (simp add: shapes_ok_def length_rule)
  with b l show ?thesis by blast
qed

lemma batch_loop_learn:
  "shapes_ok n ag \<Longrightarrow> \<forall>t\<in>set ts. transition_ok n t \<Longrightarrow> learn_eq ag bg \<Longrightarrow>
     \<exists>ag' accs'. batch_loop ag ts accs = Inr (ag', accs') \<and>
        learn_eq ag' (foldl rule_step bg ts)"
proof (induction ts arbitrary: ag bg accs)
  case Nil
  then show ?case by simp
next
  case (Cons t ts)
  from Cons.prems(2) have "transition_ok n t" and rest: "\<forall>t\<in>set ts. transition_ok n t"
    by simp_all
  from batch_body_learn [OF Cons.prems(1) this(1)] obtain ag1 cp where
    b: "batch_body ag t = Inr (ag1, cp)" and s: "shapes_ok n ag1"
    and l: "learn_eq ag1 (rule_step ag t)" by blast
  from l learn_eq_rule_step [OF Cons.prems(3)] have "learn_eq ag1 (rule_step bg t)"
    by (rule learn_eq_trans)
  from Cons.IH [OF s rest this, of "accs @ [cp]"] b show ?case by simp
qed


text \<open>
  C2. First, one transition \<open>(obs, action, r, terminated, next_obs, label)\<close> of the
  agent's shapes, with a positive buffer capacity: the loop body returns an agent
  \<open>ag'\<close> in which every critic weight has grown by \<open>lr_c * \<delta> * concat(obs, action)\<^sub>k\<close>
  and every policy weight by \<open>lr_a * \<delta> * g\<^sub>k / buffer_size\<close> clipped to \<open>[-10, 10]\<close>,
  where \<open>\<delta>\<close> is the TD error of the specification (target
  \<open>r + \<gamma> * max (Q(next_obs, 0)) (Q(next_obs, 1))\<close> if not terminated and \<open>next_obs\<close>
  is present, \<open>r + \<gamma> * 0\<close> otherwise, minus \<open>Q(obs, action)\<close>, clipped to
  \<open>[-10, 10]\<close>), \<open>g\<^sub>k\<close> is \<open>(action - p) * obs\<^sub>k\<close> clipped to \<open>[-10, 10]\<close>, and \<open>p\<close> is
  the sigmoid of the dot product of \<open>obs\<close> with the policy weights, all on the weights
  of the agent \<open>ag\<close> that the body was given.
  Second, \<open>batch_update\<close> on a full buffer of such transitions: it returns, the buffer
  is empty and the counter one higher, and both weight vectors are those of
  \<open>rule_step\<close> folded from the left over \<open>shuffle (buffer)\<close>: the rule applied to every
  buffered transition in turn, each on the weights that the transitions before it in
  the same pass have left.
\<close>

theorem batch_update_applies_rule:
  "(length ob = length (previous_policy_weight ag) \<and> length (q_weights ag) = length ob + 1 \<and>
    (\<not> tm \<longrightarrow> (\<forall>n. nxt = Some n \<longrightarrow> length n = length ob)) \<and> 0 < buffer_size ag \<longrightarrow>
      (\<exists>ag'. batch_body ag (ob, a, r, tm, nxt, lab) =
               Inr (ag', if lab = 1 then policy_prob ag ob else 1 - policy_prob ag ob) \<and>
         length (q_weights ag') = length (q_weights ag) \<and>
         (\<forall>k<length (q_weights ag).
            q_weights ag' ! k =
              q_weights ag ! k +
              lr_c ag * td_error_spec ag (ob, a, r, tm, nxt, lab) * (ob @ [real_of_int a]) ! k) \<and>
         length (previous_policy_weight ag') = length (previous_policy_weight ag) \<and>
         (\<forall>k<length ob.
            previous_policy_weight ag' ! k =
              previous_policy_weight ag ! k +
              clip10 (lr_a ag * td_error_spec ag (ob, a, r, tm, nxt, lab) *
                        clip10 ((real_of_int a - policy_prob ag ob) * ob ! k)
                      / real (buffer_size ag))) \<and>
         learn_eq ag' (rule_step ag (ob, a, r, tm, nxt, lab)))) \<and>
   (shapes_ok n bg \<and> (\<forall>t\<in>set (buffer bg). transition_ok n t) \<and>
    (\<forall>b. set (shuffle b) \<subseteq> set b) \<and> 0 < buffer_size bg \<and>
    buffer_size bg \<le> length (buffer bg) \<longrightarrow>
      (\<exists>bg'. batch_update shuffle bg = Inr bg' \<and> buffer bg' = [] \<and>
         batch_update_count bg' = batch_update_count bg + 1 \<and>
         q_weights bg' = q_weights (foldl rule_step bg (shuffle (buffer bg))) \<and>
         previous_policy_weight bg' =
           previous_policy_weight (foldl rule_step bg (shuffle (buffer bg)))))"
proof (intro conjI impI)
  let ?t = "(ob, a, r, tm, nxt, lab)"
  assume h: "length ob = length (previous_policy_weight ag) \<and>
    length (q_weights ag) = length ob + 1 \<and>
    (\<not> tm \<longrightarrow> (\<forall>n. nxt = Some n \<longrightarrow> length n = length ob)) \<and> 0 < buffer_size ag"
  then have 1: "length ob = length (previous_policy_weight ag)"
    and 2: "length (q_weights ag) = length ob + 1"
    and 3: "\<not> tm \<longrightarrow> (\<forall>n. nxt = Some n \<longrightarrow> length n = length ob)" by simp_all
  from batch_body_rule [OF 1 2 3, of a r lab] obtain ag' where
    b: "batch_body ag ?t = Inr (ag', if lab = 1 then policy_prob ag ob else 1 - policy_prob ag ob)"
    and q: "q_weights ag' = rule_q ag ?t" and p: "previous_policy_weight ag' = rule_theta ag ?t"
    and l: "learn_eq ag' (rule_step ag ?t)" by blast
  have lq: "length (q_weights ag') = length (q_weights ag)"
    unfolding q by (rule length_rule)
  have lp: "length (previous_policy_weight ag') = length (previous_policy_weight ag)"
    unfolding p by (rule length_rule)
  have cq: "\<forall>k<length (q_weights ag).
            q_weights ag' ! k =
              q_weights ag ! k +
              lr_c ag * td_error_spec ag ?t * (ob @ [real_of_int a]) ! k"
    unfolding q by (simp add: rule_q_def del: upt_Suc)
  have cp: "\<forall>k<length ob.
            previous_policy_weight ag' ! k =
              previous_policy_weight ag ! k +
              clip10 (lr_a ag * td_error_spec ag ?t *
                        clip10 ((real_of_int a - policy_prob ag ob) * ob ! k)
                      / real (buffer_size ag))"
    unfolding p using 1 by (simp add: rule_theta_def del: upt_Suc)
  from b lq cq lp cp l
  show "\<exists>ag'. batch_body ag ?t =
               Inr (ag', if lab = 1 then policy_prob ag ob else 1 - policy_prob ag ob) \<and>
         length (q_weights ag') = length (q_weights ag) \<and>
         (\<forall>k<length (q_weights ag).
            q_weights ag' ! k =
              q_weights ag ! k +
              lr_c ag * td_error_spec ag ?t * (ob @ [real_of_int a]) ! k) \<and>
         length (previous_policy_weight ag') = length (previous_policy_weight ag) \<and>
         (\<forall>k<length ob.
            previous_policy_weight ag' ! k =
              previous_policy_weight ag ! k +
              clip10 (lr_a ag * td_error_spec ag ?t *
                        clip10 ((real_of_int a - policy_prob ag ob) * ob ! k)
                      / real (buffer_size ag))) \<and>
         learn_eq ag' (rule_step ag ?t)"
    by blast
next
  assume h: "shapes_ok n bg \<and> (\<forall>t\<in>set (buffer bg). transition_ok n t) \<and>
    (\<forall>b. set (shuffle b) \<subseteq> set b) \<and> 0 < buffer_size bg \<and>
    buffer_size bg \<le> length (buffer bg)"
  then have s: "shapes_ok n bg" and tr: "\<forall>t\<in>set (buffer bg). transition_ok n t"
    and sh: "\<forall>b. set (shuffle b) \<subseteq> set b" and full: "buffer_size bg \<le> length (buffer bg)"
    by simp_all
  let ?b1 = "bg\<lparr>batch_update_count := batch_update_count bg + 1\<rparr>"
  let ?batch = "shuffle (buffer bg)"
  have s1: "shapes_ok n ?b1" using s by (simp add: shapes_ok_def)
  have l1: "learn_eq ?b1 bg" by (simp add: learn_eq_def)
  have tb: "\<forall>t\<in>set ?batch. transition_ok n t" using tr sh by blast
  from batch_loop_learn [OF s1 tb l1, of "[]"] obtain b2 accs where
    lp: "batch_loop ?b1 ?batch [] = Inr (b2, accs)"
    and le: "learn_eq b2 (foldl rule_step bg ?batch)" by blast
  from batch_loop_frame [OF lp] have cnt: "batch_update_count b2 = batch_update_count bg + 1"
    by simp
  have "batch_update shuffle bg =
          Inr (b2\<lparr>buffer := [], training_batch_acc := training_batch_acc b2 @ [np_mean accs]\<rparr>)"
    using full lp by (simp add: batch_update_def Let_def)
  with cnt le
  show "\<exists>bg'. batch_update shuffle bg = Inr bg' \<and> buffer bg' = [] \<and>
         batch_update_count bg' = batch_update_count bg + 1 \<and>
         q_weights bg' = q_weights (foldl rule_step bg ?batch) \<and>
         previous_policy_weight bg' = previous_policy_weight (foldl rule_step bg ?batch)"
    by (simp add: learn_eq_def)
qed

theorem batch_update_applies_rule_witness:
  "(\<exists>ag'. batch_body (Principal_v5 1 (1/1000) (1/1000) 2 (99/100) [0, 0])
             ([2, 1], 1, 1, False, Some [3, 1], 1) = Inr (ag', 1/2) \<and>
          (\<forall>k<3. q_weights ag' ! k = 1/100 + 1/1000 * (2019/2000) * ([2, 1] @ [1]) ! k) \<and>
          (\<forall>k<2. previous_policy_weight ag' ! k =
             [0, 0] ! k + clip10 (1/1000 * (2019/2000) * clip10 ((1 - 1/2) * [2, 1] ! k) / 2))) \<and>
   (\<exists>bg'. batch_update rev
             ((Principal_v5 1 (1/1000) (1/1000) 2 (99/100) [0, 0])
                \<lparr>buffer := [([2, 1], 1, 1, False, Some [3, 1], 1),
                             ([3, 1], 0, - 1, True, None, 1)]\<rparr>) = Inr bg' \<and>
          buffer bg' = [] \<and> batch_update_count bg' = 1 \<and>
          q_weights bg' =
            q_weights (rule_step (rule_step (Principal_v5 1 (1/1000) (1/1000) 2 (99/100) [0, 0])
                          ([3, 1], 0, - 1, True, None, 1))
                        ([2, 1], 1, 1, False, Some [3, 1], 1)) \<and>
          previous_policy_weight bg' =
            previous_policy_weight
              (rule_step (rule_step (Principal_v5 1 (1/1000) (1/1000) 2 (99/100) [0, 0])
                          ([3, 1], 0, - 1, True, None, 1))
                 ([2, 1], 1, 1, False, Some [3, 1], 1)))"
proof (rule conjI)
  let ?A = "Principal_v5 1 (1/1000) (1/1000) 2 (99/100) [0, 0]"
  let ?t = "([2, 1], 1, 1, False, Some [3, 1], 1) :: transition"
  have h: "length [2, 1::real] = length (previous_policy_weight ?A) \<and>
    length (q_weights ?A) = length [2, 1::real] + 1 \<and>
    (\<not> False \<longrightarrow> (\<forall>n. Some [3, 1::real] = Some n \<longrightarrow> length n = length [2, 1::real])) \<and>
    0 < buffer_size ?A"
    by (simp add: Principal_v5_def)
  have f: "length (q_weights ?A) = 3" "lr_c ?A = 1/1000" "lr_a ?A = 1/1000"
    "real (buffer_size ?A) = 2" "previous_policy_weight ?A = [0, 0]" "length [2, 1::real] = 2"
    by (simp_all add: Principal_v5_def)
  have q: "q_weights ?A ! k = 1/100" if "k < 3" for k
  proof -
    from that consider "k = 0" | "k = 1" | "k = 2" by arith
    then show ?thesis by cases (simp_all add: Principal_v5_def)
  qed
  from mp [OF conjunct1 [OF batch_update_applies_rule [where a = 1 and r = 1 and lab = 1]] h]
  obtain ag' where
    c1: "batch_body ?A ?t = Inr (ag', if (1::int) = 1 then policy_prob ?A [2, 1]
                                       else 1 - policy_prob ?A [2, 1])"
    and c3: "\<forall>k<length (q_weights ?A).
         q_weights ag' ! k =
           q_weights ?A ! k + lr_c ?A * td_error_spec ?A ?t * ([2, 1] @ [real_of_int 1]) ! k"
    and c5: "\<forall>k<length [2, 1::real].
         previous_policy_weight ag' ! k =
           previous_policy_weight ?A ! k +
           clip10 (lr_a ?A * td_error_spec ?A ?t *
                     clip10 ((real_of_int 1 - policy_prob ?A [2, 1]) * [2, 1] ! k)
                   / real (buffer_size ?A))"
    by blast
  have d1: "batch_body ?A ?t = Inr (ag', 1/2)"
    using c1 unfolding example_policy_prob by simp
  have d3: "\<forall>k<3. q_weights ag' ! k = 1/100 + 1/1000 * (2019/2000) * ([2, 1] @ [1]) ! k"
  proof (intro allI impI)
    fix k :: nat assume k: "k < 3"
    with c3 have "q_weights ag' ! k =
           q_weights ?A ! k + lr_c ?A * td_error_spec ?A ?t * ([2, 1] @ [real_of_int 1]) ! k"
      unfolding f by blast
    then show "q_weights ag' ! k = 1/100 + 1/1000 * (2019/2000) * ([2, 1] @ [1]) ! k"
      unfolding example_td_error f q [OF k] by simp
  qed
  have d5: "\<forall>k<2. previous_policy_weight ag' ! k =
          [0, 0] ! k + clip10 (1/1000 * (2019/2000) * clip10 ((1 - 1/2) * [2, 1] ! k) / 2)"
  proof (intro allI impI)
    fix k :: nat assume k: "k < 2"
    with c5 have "previous_policy_weight ag' ! k =
           previous_policy_weight ?A ! k +
           clip10 (lr_a ?A * td_error_spec ?A ?t *
                     clip10 ((real_of_int 1 - policy_prob ?A [2, 1]) * [2, 1] ! k)
                   / real (buffer_size ?A))"
      unfolding f by blast
    then show "previous_policy_weight ag' ! k =
          [0, 0] ! k + clip10 (1/1000 * (2019/2000) * clip10 ((1 - 1/2) * [2, 1] ! k) / 2)"
      unfolding example_td_error example_policy_prob f by simp
  qed
  from d1 d3 d5
  show "\<exists>ag'. batch_body ?A ?t = Inr (ag', 1/2) \<and>
          (\<forall>k<3. q_weights ag' ! k = 1/100 + 1/1000 * (2019/2000) * ([2, 1] @ [1]) ! k) \<and>
          (\<forall>k<2. previous_policy_weight ag' ! k =
             [0, 0] ! k + clip10 (1/1000 * (2019/2000) * clip10 ((1 - 1/2) * [2, 1] ! k) / 2))"
    by blast
next
  let ?A = "Principal_v5 1 (1/1000) (1/1000) 2 (99/100) [0, 0]"
  let ?t1 = "([2, 1], 1, 1, False, Some [3, 1], 1) :: transition"
  let ?t2 = "([3, 1], 0, - 1, True, None, 1) :: transition"
  let ?B = "?A\<lparr>buffer := [?t1, ?t2]\<rparr>"
  have h: "shapes_ok 2 ?B \<and> (\<forall>t\<in>set (buffer ?B). transition_ok 2 t) \<and>
    (\<forall>b::transition list. set (rev b) \<subseteq> set b) \<and> 0 < buffer_size ?B \<and>
    buffer_size ?B \<le> length (buffer ?B)"
    by (simp add: shapes_ok_def transition_ok_def Principal_v5_def)
  have e: "learn_eq ?B ?A" by (simp add: learn_eq_def)
  from mp [OF conjunct2 [OF batch_update_applies_rule] h]
  obtain bg' where
    u: "batch_update rev ?B = Inr bg'" and b: "buffer bg' = []"
    and c: "batch_update_count bg' = batch_update_count ?B + 1"
    and q: "q_weights bg' = q_weights (foldl rule_step ?B (rev (buffer ?B)))"
    and p: "previous_policy_weight bg' =
              previous_policy_weight (foldl rule_step ?B (rev (buffer ?B)))"
    by blast
  have fo: "foldl rule_step ?B (rev (buffer ?B)) = rule_step (rule_step ?B ?t2) ?t1"
    by simp
  have le: "learn_eq (rule_step (rule_step ?B ?t2) ?t1) (rule_step (rule_step ?A ?t2) ?t1)"
    by (intro learn_eq_rule_step e)
  have c': "batch_update_count bg' = 1"
    using c by (simp add: Principal_v5_def)
  from u b c' q p le
  show "\<exists>bg'. batch_update rev ?B = Inr bg' \<and> buffer bg' = [] \<and> batch_update_count bg' = 1 \<and>
          q_weights bg' = q_weights (rule_step (rule_step ?A ?t2) ?t1) \<and>
          previous_policy_weight bg' = previous_policy_weight (rule_step (rule_step ?A ?t2) ?t1)"
    unfolding fo by (auto simp: learn_eq_def)
qed

end
